theory Spec2Isabelle
  imports Main
begin

section \<open>JavaScript values\<close>

text \<open>
  The agreement condition of \<^verbatim>\<open>lib/ConsensusCondition.js\<close> manipulates plain JavaScript
  objects (m-ld subjects, the proof value) and their JSON serialisation. A value is modelled
  by the datatype \<open>json\<close>; \<open>JNull\<close> stands for both \<^verbatim>\<open>null\<close> and, where a value is
  optional, \<open>None\<close> stands for \<^verbatim>\<open>undefined\<close>. An object is the list of its own
  properties in property order; its keys are pairwise distinct (\<open>wf_json\<close> below).
  Where the code builds an object key by key, the model appends the keys in the order of
  their creation, which is the property order unless a key is an array index; the table of
  the loader, whose keys are entity identifiers, is enumerated with \<open>Object_entries\<close>,
  which puts array indices first.
  Strings are lists of 8-bit characters, so code units above \<open>0xFF\<close> are outside the model,
  and numbers are integers printed in decimal (doubles are not represented; number literals
  with a fraction or an exponent are rejected by the parser).
\<close>

datatype json = JNull | JBool bool | JNum int | JStr string
  | JArr "json list" | JObj "(string \<times> json) list"

definition hex_digit :: "nat \<Rightarrow> char" where
  "hex_digit n = (if n < 10 then char_of (48 + n) else char_of (87 + n))"

definition quote_char :: "char \<Rightarrow> string" where
  "quote_char c =
     (if c = CHR 0x08 then [CHR 0x5C, CHR ''b'']
      else if c = CHR 0x09 then [CHR 0x5C, CHR ''t'']
      else if c = CHR 0x0A then [CHR 0x5C, CHR ''n'']
      else if c = CHR 0x0C then [CHR 0x5C, CHR ''f'']
      else if c = CHR 0x0D then [CHR 0x5C, CHR ''r'']
      else if c = CHR 0x22 then [CHR 0x5C, CHR 0x22]
      else if c = CHR 0x5C then [CHR 0x5C, CHR 0x5C]
      else if (of_char c :: nat) < 0x20
        then [CHR 0x5C, CHR ''u'', CHR ''0'', CHR ''0'',
              hex_digit (of_char c div 16), hex_digit (of_char c mod 16)]
      else [c])"

definition QuoteJSONString :: "string \<Rightarrow> string" where
  "QuoteJSONString s = CHR 0x22 # concat (map quote_char s) @ [CHR 0x22]"

function show_nat :: "nat \<Rightarrow> string" where
  "show_nat n = (if n < 10 then [char_of (48 + n)]
                 else show_nat (n div 10) @ [char_of (48 + n mod 10)])"
  by pat_completeness auto
termination
  by (relation "measure (\<lambda>n. n)") auto

definition show_int :: "int \<Rightarrow> string" where
  "show_int i = (if i < 0 then CHR ''-'' # show_nat (nat (- i)) else show_nat (nat i))"

fun join_commas :: "string list \<Rightarrow> string" where
  "join_commas [] = []"
| "join_commas [x] = x"
| "join_commas (x # y # ys) = x @ CHR '','' # join_commas (y # ys)"

fun JSON_stringify :: "json \<Rightarrow> string" where
  "JSON_stringify JNull = ''null''"
| "JSON_stringify (JBool b) = (if b then ''true'' else ''false'')"
| "JSON_stringify (JNum i) = show_int i"
| "JSON_stringify (JStr s) = QuoteJSONString s"
| "JSON_stringify (JArr xs) =
     CHR ''['' # join_commas (map JSON_stringify xs) @ [CHR '']'']"
| "JSON_stringify (JObj kvs) =
     CHR ''{'' # join_commas (map (\<lambda>(k, v). QuoteJSONString k @ CHR '':'' # JSON_stringify v) kvs)
       @ [CHR ''}'']"

text \<open>
  \<^verbatim>\<open>JSON.parse\<close> is a recursive descent over the text. The recursion of the model is
  bounded by a fuel, which \<open>JSON_parse\<close> sets to the length of the text plus one; that this
  fuel suffices for every text that \<^verbatim>\<open>JSON.stringify\<close> produces is part of the round trip
  \<open>JSON_parse_stringify\<close>. When a key occurs twice in an object, the later value replaces
  the earlier one (\<open>CreateDataProperty\<close>).
\<close>

definition is_ws :: "char \<Rightarrow> bool" where
  "is_ws c = (c = CHR 0x20 \<or> c = CHR 0x09 \<or> c = CHR 0x0A \<or> c = CHR 0x0D)"

definition skip_ws :: "string \<Rightarrow> string" where
  "skip_ws cs = dropWhile is_ws cs"

definition is_digit :: "char \<Rightarrow> bool" where
  "is_digit c = (48 \<le> (of_char c :: nat) \<and> (of_char c :: nat) \<le> 57)"

definition hex_value :: "char \<Rightarrow> nat option" where
  "hex_value c = (let n = (of_char c :: nat) in
     if 48 \<le> n \<and> n \<le> 57 then Some (n - 48)
     else if 97 \<le> n \<and> n \<le> 102 then Some (n - 87)
     else if 65 \<le> n \<and> n \<le> 70 then Some (n - 55)
     else None)"

definition hex4 :: "char \<Rightarrow> char \<Rightarrow> char \<Rightarrow> char \<Rightarrow> nat option" where
  "hex4 a b c d =
     (case (hex_value a, hex_value b, hex_value c, hex_value d) of
        (Some h3, Some h2, Some h1, Some h0) \<Rightarrow> Some (((h3 * 16 + h2) * 16 + h1) * 16 + h0)
      | _ \<Rightarrow> None)"

definition simple_escape :: "char \<Rightarrow> char option" where
  "simple_escape e =
     (if e = CHR 0x22 then Some (CHR 0x22)
      else if e = CHR 0x5C then Some (CHR 0x5C)
      else if e = CHR ''/'' then Some (CHR ''/'')
      else if e = CHR ''b'' then Some (CHR 0x08)
      else if e = CHR ''f'' then Some (CHR 0x0C)
      else if e = CHR ''n'' then Some (CHR 0x0A)
      else if e = CHR ''r'' then Some (CHR 0x0D)
      else if e = CHR ''t'' then Some (CHR 0x09)
      else None)"

definition cons_char :: "char \<Rightarrow> (string \<times> string) option \<Rightarrow> (string \<times> string) option" where
  "cons_char c r = (case r of None \<Rightarrow> None | Some (s, rest) \<Rightarrow> Some (c # s, rest))"

fun parse_chars :: "string \<Rightarrow> (string \<times> string) option" where
  "parse_chars [] = None"
| "parse_chars (c # cs) =
     (if c = CHR 0x22 then Some ([], cs)
      else if c = CHR 0x5C then
        (case cs of
           [] \<Rightarrow> None
         | e # cs1 \<Rightarrow>
             if e = CHR ''u'' then
               (case cs1 of
                  h3 # h2 # h1 # h0 # cs2 \<Rightarrow>
                    (case hex4 h3 h2 h1 h0 of
                       None \<Rightarrow> None
                     | Some n \<Rightarrow> if n < 256 then cons_char (char_of n) (parse_chars cs2) else None)
                | _ \<Rightarrow> None)
             else
               (case simple_escape e of
                  None \<Rightarrow> None
                | Some d \<Rightarrow> cons_char d (parse_chars cs1)))
      else if (of_char c :: nat) < 0x20 then None
      else cons_char c (parse_chars cs))"

definition digits_value :: "string \<Rightarrow> nat" where
  "digits_value ds = foldl (\<lambda>a c. 10 * a + (of_char c - 48)) 0 ds"

definition parse_unsigned :: "string \<Rightarrow> (nat \<times> string) option" where
  "parse_unsigned cs =
     (let ds = takeWhile is_digit cs; rest = dropWhile is_digit cs in
      if ds = [] then None
      else if hd ds = CHR ''0'' \<and> 1 < length ds then None
      else if rest \<noteq> [] \<and> hd rest \<in> {CHR ''.'', CHR ''e'', CHR ''E''} then None
      else Some (digits_value ds, rest))"

definition parse_number :: "string \<Rightarrow> (json \<times> string) option" where
  "parse_number cs =
     (case cs of
        [] \<Rightarrow> None
      | c # r \<Rightarrow>
          if c = CHR ''-''
          then (case parse_unsigned r of None \<Rightarrow> None | Some (n, rest) \<Rightarrow> Some (JNum (- int n), rest))
          else (case parse_unsigned cs of None \<Rightarrow> None | Some (n, rest) \<Rightarrow> Some (JNum (int n), rest)))"

definition parse_literal :: "string \<Rightarrow> json \<Rightarrow> string \<Rightarrow> (json \<times> string) option" where
  "parse_literal lit v cs =
     (if take (length lit) cs = lit then Some (v, drop (length lit) cs) else None)"

definition CreateDataProperty :: "(string \<times> json) list \<Rightarrow> string \<Rightarrow> json \<Rightarrow> (string \<times> json) list" where
  "CreateDataProperty obj k v =
     (if k \<in> set (map fst obj) then map (\<lambda>(k', v'). if k' = k then (k', v) else (k', v')) obj
      else obj @ [(k, v)])"

definition object_of_members :: "(string \<times> json) list \<Rightarrow> json" where
  "object_of_members ms = JObj (foldl (\<lambda>obj (k, v). CreateDataProperty obj k v) [] ms)"

fun parse_value :: "nat \<Rightarrow> string \<Rightarrow> (json \<times> string) option"
and parse_elements :: "nat \<Rightarrow> string \<Rightarrow> (json list \<times> string) option"
and parse_members :: "nat \<Rightarrow> string \<Rightarrow> ((string \<times> json) list \<times> string) option"
where
  "parse_value 0 cs = None"
| "parse_value (Suc n) cs =
     (case skip_ws cs of
        [] \<Rightarrow> None
      | c # r \<Rightarrow>
          if c = CHR ''['' then
            (case skip_ws r of
               [] \<Rightarrow> None
             | c1 # r1 \<Rightarrow>
                 if c1 = CHR '']'' then Some (JArr [], r1)
                 else (case parse_elements n r of
                         None \<Rightarrow> None
                       | Some (xs, r2) \<Rightarrow> Some (JArr xs, r2)))
          else if c = CHR ''{'' then
            (case skip_ws r of
               [] \<Rightarrow> None
             | c1 # r1 \<Rightarrow>
                 if c1 = CHR ''}'' then Some (JObj [], r1)
                 else (case parse_members n r of
                         None \<Rightarrow> None
                       | Some (ms, r2) \<Rightarrow> Some (object_of_members ms, r2)))
          else if c = CHR 0x22 then
            (case parse_chars r of None \<Rightarrow> None | Some (s, r1) \<Rightarrow> Some (JStr s, r1))
          else if c = CHR ''t'' then parse_literal ''true'' (JBool True) (c # r)
          else if c = CHR ''f'' then parse_literal ''false'' (JBool False) (c # r)
          else if c = CHR ''n'' then parse_literal ''null'' JNull (c # r)
          else parse_number (c # r))"
| "parse_elements 0 cs = None"
| "parse_elements (Suc n) cs =
     (case parse_value n cs of
        None \<Rightarrow> None
      | Some (v, r) \<Rightarrow>
          (case skip_ws r of
             [] \<Rightarrow> None
           | c # r1 \<Rightarrow>
               if c = CHR '','' then
                 (case parse_elements n r1 of
                    None \<Rightarrow> None
                  | Some (vs, r2) \<Rightarrow> Some (v # vs, r2))
               else if c = CHR '']'' then Some ([v], r1)
               else None))"
| "parse_members 0 cs = None"
| "parse_members (Suc n) cs =
     (case skip_ws cs of
        [] \<Rightarrow> None
      | q # r \<Rightarrow>
          if q \<noteq> CHR 0x22 then None
          else
            (case parse_chars r of
               None \<Rightarrow> None
             | Some (k, r1) \<Rightarrow>
                 (case skip_ws r1 of
                    [] \<Rightarrow> None
                  | c # r2 \<Rightarrow>
                      if c \<noteq> CHR '':'' then None
                      else
                        (case parse_value n r2 of
                           None \<Rightarrow> None
                         | Some (v, r3) \<Rightarrow>
                             (case skip_ws r3 of
                                [] \<Rightarrow> None
                              | d # r4 \<Rightarrow>
                                  if d = CHR '','' then
                                    (case parse_members n r4 of
                                       None \<Rightarrow> None
                                     | Some (ms, r5) \<Rightarrow> Some ((k, v) # ms, r5))
                                  else if d = CHR ''}'' then Some ([(k, v)], r4)
                                  else None)))))"

datatype js_error = SyntaxError | TypeError | CommandRejected

definition JSON_parse :: "string \<Rightarrow> js_error + json" where
  "JSON_parse text =
     (case parse_value (Suc (length text)) text of
        None \<Rightarrow> Inl SyntaxError
      | Some (v, rest) \<Rightarrow> if skip_ws rest = [] then Inr v else Inl SyntaxError)"


fun wf_json :: "json \<Rightarrow> bool" where
  "wf_json (JArr xs) = list_all wf_json xs"
| "wf_json (JObj kvs) = (distinct (map fst kvs) \<and> list_all (\<lambda>kv. wf_json (snd kv)) kvs)"
| "wf_json _ = True"

section \<open>Subjects and the helpers imported from m-ld\<close>

type_synonym subject = "(string \<times> json) list"

text \<open>
  \<open>ToString\<close> is the coercion JavaScript applies when a value is used as a property key,
  as in \<^verbatim>\<open>this.subjectPropertiesToLoad[subject['@id']]\<close>. A GraphSubject carries a string
  \<^verbatim>\<open>'@id'\<close>, for which the coercion is the identity.
\<close>

fun ToString :: "json \<Rightarrow> string" where
  "ToString JNull = ''null''"
| "ToString (JBool b) = (if b then ''true'' else ''false'')"
| "ToString (JNum i) = show_int i"
| "ToString (JStr s) = s"
| "ToString (JArr xs) = join_commas (map (\<lambda>x. if x = JNull then [] else ToString x) xs)"
| "ToString (JObj kvs) = ''[object Object]''"

definition ToPropertyKey :: "json option \<Rightarrow> string" where
  "ToPropertyKey v = (case v of None \<Rightarrow> ''undefined'' | Some x \<Rightarrow> ToString x)"

definition subject_key :: "subject \<Rightarrow> string" where
  "subject_key s = ToPropertyKey (map_of s ''@id'')"

text \<open>
  Modelled from the spec: \<^verbatim>\<open>isPropertyObject\<close>, \<^verbatim>\<open>array\<close>, \<^verbatim>\<open>includesValue\<close> and
  \<^verbatim>\<open>updateSubject\<close> are imported from the package \<^verbatim>\<open>@m-ld/m-ld\<close>, whose code is not part
  of this repository. \<open>isPropertyObject\<close> tells a property of a subject from its
  identifier, its context and an absent value.
\<close>

definition isPropertyObject :: "string \<Rightarrow> json option \<Rightarrow> bool" where
  "isPropertyObject property object =
     (property \<noteq> ''@context'' \<and> property \<noteq> ''@id'' \<and> object \<noteq> None \<and> object \<noteq> Some JNull)"

text \<open>
  Modelled from the spec: \<^verbatim>\<open>array\<close> normalises ``a single token or a collection containing
  one'' to the list of its non-null members.
\<close>

definition array :: "json \<Rightarrow> json list" where
  "array v = (case v of JNull \<Rightarrow> [] | JArr xs \<Rightarrow> filter (\<lambda>x. x \<noteq> JNull) xs | _ \<Rightarrow> [v])"

definition own_property :: "json \<Rightarrow> string \<Rightarrow> json option" where
  "own_property v k = (case v of JObj kvs \<Rightarrow> map_of kvs k | _ \<Rightarrow> None)"

definition property_values :: "json \<Rightarrow> string \<Rightarrow> json list" where
  "property_values s property =
     (case own_property s property of None \<Rightarrow> [] | Some v \<Rightarrow> array v)"

text \<open>
  Modelled from the spec: \<^verbatim>\<open>includesValue\<close> decides whether the subject's ``values for that
  property include that value''; a property holding several values includes each of them.
\<close>

definition includesValue :: "json \<Rightarrow> string \<Rightarrow> json \<Rightarrow> bool" where
  "includesValue s property v = list_all (\<lambda>x. x \<in> set (property_values s property)) (array v)"

record GraphUpdate =
  at_delete :: "subject list"
  at_insert :: "subject list"

definition Set_add :: "'a list \<Rightarrow> 'a \<Rightarrow> 'a list" where
  "Set_add s x = (if x \<in> set s then s else s @ [x])"

definition delta_values :: "subject list \<Rightarrow> string \<Rightarrow> string \<Rightarrow> json list" where
  "delta_values subjects eid property =
     concat (map (\<lambda>s. property_values (JObj s) property)
                 (filter (\<lambda>s. subject_key s = eid) subjects))"

definition delta_properties :: "subject list \<Rightarrow> string \<Rightarrow> string list" where
  "delta_properties subjects eid =
     concat (map (\<lambda>s. filter (\<lambda>p. isPropertyObject p (map_of s p)) (map fst s))
                 (filter (\<lambda>s. subject_key s = eid) subjects))"

definition updated_values :: "subject \<Rightarrow> GraphUpdate \<Rightarrow> string \<Rightarrow> json list" where
  "updated_values s affected property =
     foldl Set_add []
       (filter (\<lambda>v. v \<notin> set (delta_values (at_delete affected) (subject_key s) property))
               (property_values (JObj s) property)
        @ delta_values (at_insert affected) (subject_key s) property)"

definition minimal_value :: "json list \<Rightarrow> json" where
  "minimal_value vs = (case vs of [v] \<Rightarrow> v | _ \<Rightarrow> JArr vs)"

definition updated_entry :: "subject \<Rightarrow> GraphUpdate \<Rightarrow> string \<Rightarrow> subject" where
  "updated_entry s affected property =
     (let vs = updated_values s affected property
      in if vs = [] then [] else [(property, minimal_value vs)])"

text \<open>
  Modelled from the spec: \<^verbatim>\<open>updateSubject\<close> applies ``the delta's own inserts/deletes on top
  of the fetched values for that entity'': every property of the subject and every property
  the delta has for the subject's identifier gets the fetched values without the deleted
  ones, joined with the inserted ones. A single value stands for itself, several values form
  an array, and a property left without values is removed, so that an entity whose
  properties are all deleted is ``still emitted'' with ``an empty property-value mapping''.
\<close>

definition updateSubject :: "subject \<Rightarrow> GraphUpdate \<Rightarrow> subject" where
  "updateSubject s affected =
     concat (map (\<lambda>(k, v). if isPropertyObject k (Some v) then updated_entry s affected k else [(k, v)]) s)
     @ concat (map (updated_entry s affected)
         (foldl Set_add []
            (filter (\<lambda>p. p \<notin> set (map fst s))
               (delta_properties (at_delete affected) (subject_key s)
                @ delta_properties (at_insert affected) (subject_key s)))))"

section \<open>The ledger and the read state\<close>

text \<open>
  The effects of \<open>prove\<close> and \<open>test\<close> are reads of the m-ld state, one command sent to
  Iroha and one query. They are recorded in the order they are issued.
\<close>

datatype effect =
    StateGet string "string list"
  | SetAccountDetail string string
  | GetAccountDetail string

record world =
  ledger :: "string \<rightharpoonup> string"
  trace :: "effect list"

type_synonym MeldReadState = "string \<Rightarrow> string list \<Rightarrow> subject option"

text \<open>
  Modelled from the spec: the Iroha value channel, which is not part of this repository,
  ``is assumed to impose a constraint that one level of escaping is lost in transit''. The
  detail that a command carries is read as the body of a JSON string literal; what the
  ledger keeps is the string it denotes, and a body that denotes no string is rejected.
\<close>

definition lose_escaping :: "string \<Rightarrow> string option" where
  "lose_escaping v =
     (case parse_chars (v @ [CHR 0x22]) of
        None \<Rightarrow> None
      | Some (s, rest) \<Rightarrow> if rest = [] then Some s else None)"

definition send_setAccountDetail :: "world \<Rightarrow> string \<Rightarrow> string \<Rightarrow> (js_error + unit) \<times> world" where
  "send_setAccountDetail w key v =
     (case lose_escaping v of
        None \<Rightarrow> (Inl CommandRejected, w\<lparr>trace := trace w @ [SetAccountDetail key v]\<rparr>)
      | Some stored \<Rightarrow>
          (Inr (), w\<lparr>ledger := (ledger w)(key \<mapsto> stored),
                     trace := trace w @ [SetAccountDetail key v]\<rparr>))"

definition slice_1_m1 :: "string \<Rightarrow> string" where
  "slice_1_m1 s = butlast (tl s)"

definition setAccountDetail :: "world \<Rightarrow> string \<Rightarrow> string \<Rightarrow> (js_error + unit) \<times> world" where
  "setAccountDetail w key v = send_setAccountDetail w key (slice_1_m1 (JSON_stringify (JStr v)))"

definition getAccountDetail :: "world \<Rightarrow> string \<Rightarrow> string option \<times> world" where
  "getAccountDetail w key = (ledger w key, w\<lparr>trace := trace w @ [GetAccountDetail key]\<rparr>)"

section \<open>AffectedLoader\<close>

text \<open>
  \<^verbatim>\<open>subjectPropertiesToLoad\<close> is a plain object used as a table from entity identifiers to
  sets of property names. A plain object inherits the members of \<^verbatim>\<open>Object.prototype\<close>:
  reading a key that is no own property of the table finds the inherited member of that
  name, if there is one, and \<^verbatim>\<open>undefined\<close> otherwise.
\<close>

type_synonym subjectPropertiesToLoad = "(string \<times> string list) list"

definition Object_prototype :: "string list" where
  "Object_prototype =
     [''constructor'', ''__defineGetter__'', ''__defineSetter__'', ''hasOwnProperty'',
      ''__lookupGetter__'', ''__lookupSetter__'', ''isPrototypeOf'', ''propertyIsEnumerable'',
      ''toString'', ''valueOf'', ''__proto__'', ''toLocaleString'']"

text \<open>
  \<^verbatim>\<open>this.subjectPropertiesToLoad[id] ??= new Set\<close> assigns a new set only when the value read
  under the identifier is \<^verbatim>\<open>undefined\<close>: neither an own entry nor an inherited member.
\<close>

definition ensure_entry :: "subjectPropertiesToLoad \<Rightarrow> string \<Rightarrow> subjectPropertiesToLoad" where
  "ensure_entry tbl eid =
     (if eid \<in> set (map fst tbl) \<or> eid \<in> set Object_prototype then tbl else tbl @ [(eid, [])])"

text \<open>
  \<^verbatim>\<open>this.subjectPropertiesToLoad[id].add(property)\<close> adds to the set of an own entry. When
  the identifier has no own entry, the value read is an inherited member, which has no method
  \<^verbatim>\<open>add\<close>, and the call throws a \<^verbatim>\<open>TypeError\<close>.
\<close>

definition add_property ::
  "subjectPropertiesToLoad \<Rightarrow> string \<Rightarrow> string \<Rightarrow> js_error + subjectPropertiesToLoad" where
  "add_property tbl eid property =
     (if eid \<in> set (map fst tbl)
      then Inr (map (\<lambda>(k, props). if k = eid then (k, Set_add props property) else (k, props)) tbl)
      else Inl TypeError)"

fun add_keys ::
  "subjectPropertiesToLoad \<Rightarrow> subject \<Rightarrow> string list \<Rightarrow> js_error + subjectPropertiesToLoad" where
  "add_keys tbl s [] = Inr tbl"
| "add_keys tbl s (property # keys) =
     (if isPropertyObject property (map_of s property)
      then (case add_property tbl (subject_key s) property of
              Inl e \<Rightarrow> Inl e
            | Inr tbl' \<Rightarrow> add_keys tbl' s keys)
      else add_keys tbl s keys)"

definition add_subject ::
  "subjectPropertiesToLoad \<Rightarrow> subject \<Rightarrow> js_error + subjectPropertiesToLoad" where
  "add_subject tbl s = add_keys (ensure_entry tbl (subject_key s)) s (map fst s)"

fun addProperties ::
  "subjectPropertiesToLoad \<Rightarrow> subject list \<Rightarrow> js_error + subjectPropertiesToLoad" where
  "addProperties tbl [] = Inr tbl"
| "addProperties tbl (s # subjects) =
     (case add_subject tbl s of
        Inl e \<Rightarrow> Inl e
      | Inr tbl' \<Rightarrow> addProperties tbl' subjects)"

definition AffectedLoader :: "GraphUpdate \<Rightarrow> js_error + subjectPropertiesToLoad" where
  "AffectedLoader affected =
     (case addProperties [] (at_delete affected) of
        Inl e \<Rightarrow> Inl e
      | Inr tbl \<Rightarrow> addProperties tbl (at_insert affected))"

text \<open>
  \<^verbatim>\<open>Object.entries\<close> enumerates the own properties of an object: first the keys that are
  array indices, in ascending numeric order, then the other keys in the order of their
  creation.
\<close>

definition array_index :: "string \<Rightarrow> nat option" where
  "array_index k =
     (if k \<noteq> [] \<and> list_all is_digit k \<and> (k = ''0'' \<or> hd k \<noteq> CHR ''0'')
         \<and> int (digits_value k) < 4294967295
      then Some (digits_value k) else None)"

text \<open>
  \<open>OrdinaryOwnPropertyKeys\<close> is the same order on the keys alone.
\<close>

definition OrdinaryOwnPropertyKeys :: "string list \<Rightarrow> string list" where
  "OrdinaryOwnPropertyKeys keys =
     sort_key (\<lambda>k. case array_index k of None \<Rightarrow> 0 | Some i \<Rightarrow> i)
              (filter (\<lambda>k. array_index k \<noteq> None) keys)
     @ filter (\<lambda>k. array_index k = None) keys"

definition Object_entries :: "(string \<times> 'a) list \<Rightarrow> (string \<times> 'a) list" where
  "Object_entries obj =
     sort_key (\<lambda>kv. case array_index (fst kv) of None \<Rightarrow> 0 | Some i \<Rightarrow> i)
              (filter (\<lambda>kv. array_index (fst kv) \<noteq> None) obj)
     @ filter (\<lambda>kv. array_index (fst kv) = None) obj"

text \<open>
  \<open>load\<close> maps every entry of the table to the final state of its entity:
  \<^verbatim>\<open>updateSubject(await state.get(id, ...props) ?? {'@id': id}, this.affected)\<close>. An error
  of the constructor leaves no table to load from.
\<close>

definition fetched :: "MeldReadState \<Rightarrow> string \<Rightarrow> string list \<Rightarrow> subject" where
  "fetched state eid props =
     (case state eid props of None \<Rightarrow> [(''@id'', JStr eid)] | Some s \<Rightarrow> s)"

definition load_subject :: "MeldReadState \<Rightarrow> GraphUpdate \<Rightarrow> string \<times> string list \<Rightarrow> subject" where
  "load_subject state affected entry =
     (case entry of (eid, props) \<Rightarrow> updateSubject (fetched state eid props) affected)"

definition load :: "MeldReadState \<Rightarrow> GraphUpdate \<Rightarrow> js_error + subject list" where
  "load state affected =
     (case AffectedLoader affected of
        Inl e \<Rightarrow> Inl e
      | Inr tbl \<Rightarrow> Inr (map (load_subject state affected) (Object_entries tbl)))"

text \<open>
  Each entry of the table causes one call \<^verbatim>\<open>state.get(id, ...props)\<close>. \<open>loader_requests\<close>
  lists these calls in the order in which they are made, and \<open>load_effects\<close> records them.
\<close>

definition loader_requests :: "GraphUpdate \<Rightarrow> (string \<times> string list) list" where
  "loader_requests affected =
     (case AffectedLoader affected of Inl e \<Rightarrow> [] | Inr tbl \<Rightarrow> Object_entries tbl)"

definition load_effects :: "world \<Rightarrow> GraphUpdate \<Rightarrow> world" where
  "load_effects w affected =
     w\<lparr>trace := trace w @ map (\<lambda>(eid, props). StateGet eid props) (loader_requests affected)\<rparr>"

section \<open>ConsensusCondition\<close>

text \<open>
  \<open>prove\<close> and \<open>test\<close> take the world, in which the effects are recorded, and return it
  with their result; a thrown error or a rejected promise is the result \<open>Inl\<close>. The sixteen
  random bytes of \<open>prove\<close>, in hexadecimal, are the parameter \<open>randomHex\<close>. A null or
  undefined principal is \<open>None\<close>; a principal is a reference with a string \<^verbatim>\<open>'@id'\<close>.
\<close>

definition PROOF_KEY_PREFIX :: string where
  "PROOF_KEY_PREFIX = ''pk_''"

record Reference =
  at_id :: string

datatype prove_result = ProveFalse | ProofKey string

datatype outcome = Pass | Reason string

definition ProofValue :: "string \<Rightarrow> subject list \<Rightarrow> json" where
  "ProofValue pid provedState = JObj [(''pid'', JStr pid), (''state'', JArr (map JObj provedState))]"

definition prove ::
  "world \<Rightarrow> MeldReadState \<Rightarrow> GraphUpdate \<Rightarrow> Reference option \<Rightarrow> string
     \<Rightarrow> (js_error + prove_result) \<times> world" where
  "prove w state affected principalRef randomHex =
     (case principalRef of
        None \<Rightarrow> (Inr ProveFalse, w)
      | Some p \<Rightarrow>
          (case load state affected of
             Inl e \<Rightarrow> (Inl e, w)
           | Inr provedState \<Rightarrow>
               (case setAccountDetail (load_effects w affected) (PROOF_KEY_PREFIX @ randomHex)
                       (JSON_stringify (ProofValue (at_id p) provedState)) of
                  (Inl e, w1) \<Rightarrow> (Inl e, w1)
                | (Inr u, w1) \<Rightarrow> (Inr (ProofKey (PROOF_KEY_PREFIX @ randomHex)), w1))))"

text \<open>
  The token is the first member of \<^verbatim>\<open>array(proof)\<close> that is a string starting with the
  prefix. \<open>js_member\<close> reads a property of a parsed value, which throws on \<^verbatim>\<open>null\<close> and
  gives \<^verbatim>\<open>undefined\<close> where the value has no such property; \<open>strict_equal\<close> is
  \<^verbatim>\<open>===\<close>, under which two parsed objects or arrays are never equal.
\<close>

definition startsWith :: "string \<Rightarrow> string \<Rightarrow> bool" where
  "startsWith s p = (take (length p) s = p)"

definition isProofKey :: "json \<Rightarrow> bool" where
  "isProofKey v = (case v of JStr s \<Rightarrow> startsWith s PROOF_KEY_PREFIX | _ \<Rightarrow> False)"

definition js_member :: "json \<Rightarrow> string \<Rightarrow> js_error + json option" where
  "js_member v k = (if v = JNull then Inl TypeError else Inr (own_property v k))"

definition is_primitive :: "json \<Rightarrow> bool" where
  "is_primitive v = (case v of JArr xs \<Rightarrow> False | JObj kvs \<Rightarrow> False | _ \<Rightarrow> True)"

definition strict_equal :: "json option \<Rightarrow> json option \<Rightarrow> bool" where
  "strict_equal a b =
     (case (a, b) of
        (None, None) \<Rightarrow> True
      | (Some x, Some y) \<Rightarrow> x = y \<and> is_primitive x
      | _ \<Rightarrow> False)"

text \<open>
  \<open>proved_state_find\<close> is the call \<^verbatim>\<open>proved.state.find(...)\<close>, which throws unless
  \<^verbatim>\<open>proved.state\<close> is an array; \<open>test_entries\<close> is the inner loop over the entries of one
  local subject and \<open>test_subjects\<close> the outer loop over the local snapshot. The state is
  read, and the reads recorded, before the loops start.
\<close>

fun find_provedSubject :: "json list \<Rightarrow> json option \<Rightarrow> string \<Rightarrow> json \<Rightarrow> js_error + json option" where
  "find_provedSubject [] eid property v = Inr None"
| "find_provedSubject (provedSubject # rest) eid property v =
     (case js_member provedSubject ''@id'' of
        Inl e \<Rightarrow> Inl e
      | Inr pid \<Rightarrow>
          if strict_equal pid eid \<and> includesValue provedSubject property v
          then Inr (Some provedSubject)
          else find_provedSubject rest eid property v)"

definition proved_state_find :: "json \<Rightarrow> json option \<Rightarrow> string \<Rightarrow> json \<Rightarrow> js_error + json option" where
  "proved_state_find proved eid property v =
     (case js_member proved ''state'' of
        Inr (Some (JArr provedState)) \<Rightarrow> find_provedSubject provedState eid property v
      | _ \<Rightarrow> Inl TypeError)"

fun test_entries :: "json \<Rightarrow> subject \<Rightarrow> (string \<times> json) list \<Rightarrow> js_error + bool" where
  "test_entries proved s [] = Inr True"
| "test_entries proved s ((property, v) # entries) =
     (if isPropertyObject property (Some v)
      then (case proved_state_find proved (map_of s ''@id'') property v of
              Inl e \<Rightarrow> Inl e
            | Inr None \<Rightarrow> Inr False
            | Inr (Some found) \<Rightarrow> test_entries proved s entries)
      else test_entries proved s entries)"

fun test_subjects :: "json \<Rightarrow> subject list \<Rightarrow> js_error + bool" where
  "test_subjects proved [] = Inr True"
| "test_subjects proved (s # actualState) =
     (case test_entries proved s s of
        Inl e \<Rightarrow> Inl e
      | Inr matched \<Rightarrow> if matched then test_subjects proved actualState else Inr False)"

definition test ::
  "world \<Rightarrow> MeldReadState \<Rightarrow> GraphUpdate \<Rightarrow> json \<Rightarrow> Reference option
     \<Rightarrow> (js_error + outcome) \<times> world" where
  "test w state affected proof principalRef =
     (case principalRef of
        None \<Rightarrow> (Inr (Reason ''No principal in update''), w)
      | Some p \<Rightarrow>
          (case find isProofKey (array proof) of
             Some (JStr proofKey) \<Rightarrow>
               (case getAccountDetail w proofKey of
                  (None, w1) \<Rightarrow> (Inr (Reason ''No proof in ledger''), w1)
                | (Some proofValue, w1) \<Rightarrow>
                    (case JSON_parse proofValue of
                       Inl e \<Rightarrow> (Inl e, w1)
                     | Inr proved \<Rightarrow>
                         (case js_member proved ''pid'' of
                            Inl e \<Rightarrow> (Inl e, w1)
                          | Inr pid \<Rightarrow>
                              if \<not> strict_equal pid (Some (JStr (at_id p)))
                              then (Inr (Reason ''Proof principal does not match update principal''), w1)
                              else
                                (case load state affected of
                                   Inl e \<Rightarrow> (Inl e, w1)
                                 | Inr actualState \<Rightarrow>
                                     (case test_subjects proved actualState of
                                        Inl e \<Rightarrow> (Inl e, load_effects w1 affected)
                                      | Inr matched \<Rightarrow>
                                          if matched then (Inr Pass, load_effects w1 affected)
                                          else (Inr (Reason ''Proof does not match update''),
                                                load_effects w1 affected))))))
           | _ \<Rightarrow> (Inr (Reason ''No proof key in update''), w)))"

section \<open>The comparison of \<open>test\<close> in the words of the specification\<close>

text \<open>
  ``For every (entity, property, value) triple present in the locally-derived snapshot,
  verify that the committed snapshot contains a subject with the same entity identifier
  whose values for that property include that value.'' \<open>spec_contained\<close> is the
  containment of one property of a local subject, \<open>spec_subset\<close> the containment of a
  whole snapshot. \<open>spec_extends larger smaller\<close> says that every subject of \<open>smaller\<close> is
  found in \<open>larger\<close> under the same identifier with at least the same values.
\<close>

definition spec_contained :: "json list \<Rightarrow> subject \<Rightarrow> string \<Rightarrow> json \<Rightarrow> bool" where
  "spec_contained provedState s property v =
     (\<exists>provedSubject \<in> set provedState.
        strict_equal (own_property provedSubject ''@id'') (map_of s ''@id'')
        \<and> includesValue provedSubject property v)"

definition spec_subset :: "json list \<Rightarrow> subject list \<Rightarrow> bool" where
  "spec_subset provedState actualState =
     (\<forall>s \<in> set actualState. \<forall>(property, v) \<in> set s.
        isPropertyObject property (Some v) \<longrightarrow> spec_contained provedState s property v)"



section \<open>The snapshot in the words of the specification\<close>

text \<open>
  ``Collect the set of entity identifiers appearing in either \<open>delta.inserted\<close> or
  \<open>delta.deleted\<close>. For each such entity, collect the set of property names appearing in
  either side of the delta for that entity.'' \<open>spec_entities\<close> lists the identifiers and
  \<open>spec_footprint\<close> the properties of one of them, both in order of first appearance.
\<close>

definition delta_subjects :: "GraphUpdate \<Rightarrow> subject list" where
  "delta_subjects affected = at_delete affected @ at_insert affected"

definition spec_entities :: "GraphUpdate \<Rightarrow> string list" where
  "spec_entities affected = foldl Set_add [] (map subject_key (delta_subjects affected))"

definition spec_footprint :: "GraphUpdate \<Rightarrow> string \<Rightarrow> string list" where
  "spec_footprint affected eid = foldl Set_add [] (delta_properties (delta_subjects affected) eid)"

definition table_of :: "subject list \<Rightarrow> (string \<times> string list) list" where
  "table_of ss = map (\<lambda>eid. (eid, foldl Set_add [] (delta_properties ss eid)))
                     (foldl Set_add [] (map subject_key ss))"

text \<open>
  A ChangeDelta is described as ``\<open>inserted\<close>: set of (entityId, property, value)'' and
  ``\<open>deleted\<close>: set of (entityId, property, value)''. \<open>spec_triples\<close> lists the triples
  that a list of subjects stands for; two lists of subjects describe the same facts when the
  sets of their triples are equal.
\<close>

definition spec_triples :: "subject list \<Rightarrow> (string \<times> string \<times> json) list" where
  "spec_triples subjects =
     concat (map (\<lambda>s. concat (map (\<lambda>(property, v).
                    if isPropertyObject property (Some v)
                    then map (\<lambda>x. (subject_key s, property, x)) (array v) else []) s))
                 subjects)"

text \<open>
  The contract of the read state, ``\<open>get(entityId, propertyNames...)\<close> \<open>\<rightarrow>\<close> mapping
  property\<open>\<rightarrow>\<close>values | absent-if-entity-unknown'': an answer is the requested entity and
  holds values of requested properties only. \<open>store_contract\<close> demands it of the requests
  that the loader makes for a delta.
\<close>

definition store_answers :: "MeldReadState \<Rightarrow> string \<Rightarrow> string list \<Rightarrow> bool" where
  "store_answers state eid props =
     (case state eid props of
        None \<Rightarrow> True
      | Some s \<Rightarrow>
          map_of s ''@id'' = Some (JStr eid)
          \<and> list_all (\<lambda>(k, v). k = ''@id'' \<or> (k \<in> set props \<and> isPropertyObject k (Some v))) s)"

definition store_contract :: "MeldReadState \<Rightarrow> GraphUpdate \<Rightarrow> bool" where
  "store_contract state affected =
     list_all (\<lambda>(eid, props). store_answers state eid props) (loader_requests affected)"

text \<open>
  The identifiers of a delta are plain when none of them names a member of
  \<^verbatim>\<open>Object.prototype\<close>. \<open>spec_requests\<close> are the entities of the delta with their
  footprints, in the order of enumeration.
\<close>

definition plain_identifiers :: "GraphUpdate \<Rightarrow> bool" where
  "plain_identifiers affected =
     list_all (\<lambda>s. subject_key s \<notin> set Object_prototype) (delta_subjects affected)"

definition spec_requests :: "GraphUpdate \<Rightarrow> (string \<times> string list) list" where
  "spec_requests affected =
     Object_entries (map (\<lambda>eid. (eid, spec_footprint affected eid)) (spec_entities affected))"

definition number_follow :: "string \<Rightarrow> bool" where
  "number_follow rest = (rest = [] \<or> hd rest \<in> {CHR '','', CHR '']'', CHR ''}''})"

definition value_start :: "char \<Rightarrow> bool" where
  "value_start c = (\<not> is_ws c \<and> c \<noteq> CHR '']'' \<and> c \<noteq> CHR ''}'')"

text \<open>
  A subject is well-formed when it is a JavaScript object all the way down (\<open>wf_json\<close>);
  \<open>wf_inputs\<close> asks this of the subjects of the delta and of the answers of the read
  state to the loader's requests (the placeholder of an unknown entity included).
\<close>

definition wf_subject :: "subject \<Rightarrow> bool" where
  "wf_subject s = wf_json (JObj s)"

definition wf_inputs :: "MeldReadState \<Rightarrow> GraphUpdate \<Rightarrow> bool" where
  "wf_inputs state affected =
     (list_all wf_subject (at_delete affected @ at_insert affected)
      \<and> list_all (\<lambda>(eid, props). wf_subject (fetched state eid props)) (loader_requests affected))"

section \<open>Example inputs\<close>

definition ex_world :: world where
  "ex_world = \<lparr>ledger = Map.empty, trace = []\<rparr>"

definition ex_alice :: Reference where
  "ex_alice = \<lparr>at_id = ''https://alice.example/profile#me''\<rparr>"

definition ex_bob :: Reference where
  "ex_bob = \<lparr>at_id = ''https://bob.example/profile#me''\<rparr>"

definition ex_insert_fred :: GraphUpdate where
  "ex_insert_fred = \<lparr>at_delete = [], at_insert = [[(''@id'', JStr ''fred''), (''name'', JStr ''Fred'')]]\<rparr>"

definition ex_state_fred :: MeldReadState where
  "ex_state_fred = (\<lambda>eid props.
     if eid = ''fred''
     then Some (filter (\<lambda>kv. fst kv = ''@id'' \<or> fst kv \<in> set props)
                 [(''@id'', JStr ''fred''), (''name'', JStr ''Fred''), (''age'', JNum 3)])
     else None)"

definition ex_proof :: json where
  "ex_proof = JArr [JStr ''pk_deadbeef'', JStr ''unrelated-value'']"

definition ex_commitment :: json where
  "ex_commitment = ProofValue (at_id ex_alice) [[(''@id'', JStr ''fred''), (''name'', JStr ''Fred'')]]"

definition ex_ledger :: world where
  "ex_ledger = \<lparr>ledger = [''pk_deadbeef'' \<mapsto> JSON_stringify ex_commitment], trace = []\<rparr>"





definition ex_delete_fred :: GraphUpdate where
  "ex_delete_fred = \<lparr>at_delete = [[(''@id'', JStr ''fred''), (''name'', JStr ''Fred'')]], at_insert = []\<rparr>"

definition ex_state_empty :: MeldReadState where
  "ex_state_empty = (\<lambda>eid props. None)"

definition ex_commitment_empty :: json where
  "ex_commitment_empty = ProofValue (at_id ex_alice) []"

definition ex_ledger_empty :: world where
  "ex_ledger_empty = \<lparr>ledger = [''pk_deadbeef'' \<mapsto> JSON_stringify ex_commitment_empty], trace = []\<rparr>"

definition ex_fred_and_bob :: GraphUpdate where
  "ex_fred_and_bob =
     \<lparr>at_delete = [[(''@id'', JStr ''fred''), (''name'', JStr ''Fred'')]],
      at_insert = [[(''@id'', JStr ''bob''), (''name'', JStr ''Bob'')],
                   [(''@id'', JStr ''bob''), (''role'', JArr [JStr ''admin'', JStr ''user''])]]\<rparr>"

definition ex_state_other :: MeldReadState where
  "ex_state_other = (\<lambda>eid props.
     if eid = ''fred''
     then Some (filter (\<lambda>kv. fst kv = ''@id'' \<or> fst kv \<in> set props)
                 [(''@id'', JStr ''fred''), (''name'', JStr ''Fred''), (''age'', JNum 77),
                  (''role'', JStr ''admin'')])
     else if eid = ''bob'' then Some [(''@id'', JStr ''bob'')]
     else None)"

definition ex_random_hex :: string where
  "ex_random_hex = ''00112233445566778899aabbccddeeff''"

definition ex_token :: string where
  "ex_token = ''pk_00112233445566778899aabbccddeeff''"

definition ex_proved_world :: world where
  "ex_proved_world = snd (prove ex_world ex_state_fred ex_insert_fred (Some ex_alice) ex_random_hex)"

definition ex_commitment_escapes :: json where
  "ex_commitment_escapes =
     ProofValue (at_id ex_alice)
       [[(''@id'', JStr ''fred''),
         (''name'', JStr [CHR ''F'', CHR 0x22, CHR ''r'', CHR 0x5C, CHR ''e'', CHR 0x0A, CHR ''d'', CHR 0x01]),
         (''age'', JArr [JNum (-3), JNull, JBool True])]]"

definition ex_insert_constructor :: GraphUpdate where
  "ex_insert_constructor =
     \<lparr>at_delete = [],
      at_insert = [[(''@id'', JStr ''constructor''), (''name'', JStr ''Object'')]]\<rparr>"

definition ex_delete_bare_constructor :: GraphUpdate where
  "ex_delete_bare_constructor =
     \<lparr>at_delete = [[(''@id'', JStr ''constructor'')]],
      at_insert = [[(''@id'', JStr ''fred''), (''name'', JStr ''Fred'')]]\<rparr>"

definition ex_fred_then_carol :: GraphUpdate where
  "ex_fred_then_carol =
     \<lparr>at_delete = [],
      at_insert = [[(''@id'', JStr ''fred''), (''name'', JStr ''Fred'')],
                   [(''@id'', JStr ''carol''), (''name'', JStr ''Carol'')]]\<rparr>"

definition ex_carol_then_fred :: GraphUpdate where
  "ex_carol_then_fred =
     \<lparr>at_delete = [],
      at_insert = [[(''@id'', JStr ''carol''), (''name'', JStr ''Carol'')],
                   [(''@id'', JStr ''fred''), (''name'', JStr ''Fred'')]]\<rparr>"

definition ex_with_index :: GraphUpdate where
  "ex_with_index =
     \<lparr>at_delete = [[(''@id'', JStr ''fred''), (''name'', JStr ''Fred'')]],
      at_insert = [[(''@id'', JStr ''carol''), (''name'', JStr ''Carol'')],
                   [(''@id'', JStr ''7''), (''name'', JStr ''Seven'')],
                   [(''@id'', JStr ''fred''), (''name'', JStr ''Frederick'')]]\<rparr>"

section \<open>The JSON round trip\<close>

lemma cons_char_Some: "cons_char c (Some (s, rest)) = Some (c # s, rest)"
  by (simp add: cons_char_def)

lemma hex_value_hex_digit: "n < 16 \<Longrightarrow> hex_value (hex_digit n) = Some n"
  by (auto simp: hex_value_def hex_digit_def Let_def)

lemma hex_value_zero: "hex_value (CHR ''0'') = Some 0"
  by (simp add: hex_value_def)

lemma hex4_control:
  assumes "(of_char c :: nat) < 0x20"
  shows "hex4 (CHR ''0'') (CHR ''0'') (hex_digit (of_char c div 16)) (hex_digit (of_char c mod 16))
           = Some (of_char c)"
proof -
  have 1: "hex_value (hex_digit (of_char c div 16)) = Some (of_char c div 16)"
    using assms by (intro hex_value_hex_digit) simp
  have 2: "hex_value (hex_digit (of_char c mod 16)) = Some (of_char c mod 16)"
    by (intro hex_value_hex_digit) simp
  show ?thesis
    by (simp add: hex4_def hex_value_zero 1 2)
qed

lemma parse_chars_quote_char:
  "parse_chars (quote_char c @ cs) = cons_char c (parse_chars cs)"
proof -
  consider (b) "c = CHR 0x08" | (t) "c = CHR 0x09" | (n) "c = CHR 0x0A" | (f) "c = CHR 0x0C"
    | (r) "c = CHR 0x0D" | (q) "c = CHR 0x22" | (s) "c = CHR 0x5C"
    | (u) "c \<noteq> CHR 0x08" "c \<noteq> CHR 0x09" "c \<noteq> CHR 0x0A" "c \<noteq> CHR 0x0C" "c \<noteq> CHR 0x0D"
          "c \<noteq> CHR 0x22" "c \<noteq> CHR 0x5C" "(of_char c :: nat) < 0x20"
    | (l) "c \<noteq> CHR 0x22" "c \<noteq> CHR 0x5C" "\<not> (of_char c :: nat) < 0x20"
          "c \<noteq> CHR 0x08" "c \<noteq> CHR 0x09" "c \<noteq> CHR 0x0A" "c \<noteq> CHR 0x0C" "c \<noteq> CHR 0x0D"
    by blast
  then show ?thesis
  proof cases
    case u
    have "parse_chars (quote_char c @ cs) = cons_char (char_of (of_char c :: nat)) (parse_chars cs)"
      using u by (simp add: quote_char_def hex4_control)
    then show ?thesis by simp
  next
    case l
    then show ?thesis by (simp add: quote_char_def)
  qed (simp_all add: quote_char_def simple_escape_def)
qed

lemma parse_chars_quoted:
  "parse_chars (concat (map quote_char s) @ CHR 0x22 # rest) = Some (s, rest)"
  by (induction s) (simp_all add: parse_chars_quote_char cons_char_Some)

lemma lose_escaping_encoded: "lose_escaping (slice_1_m1 (JSON_stringify (JStr v))) = Some v"
  by (simp add: lose_escaping_def slice_1_m1_def QuoteJSONString_def parse_chars_quoted)

lemma lose_escaping_quoted: "lose_escaping (slice_1_m1 (QuoteJSONString v)) = Some v"
  using lose_escaping_encoded [of v] by simp

declare show_nat.simps [simp del]

lemma is_digit_char_of: "n < 10 \<Longrightarrow> is_digit (char_of (48 + n :: nat))"
  by (simp add: is_digit_def)

lemma show_nat_digits: "c \<in> set (show_nat n) \<Longrightarrow> is_digit c"
proof (induction n arbitrary: c rule: show_nat.induct)
  case (1 n)
  show ?case
  proof (cases "n < 10")
    case True
    with "1.prems" show ?thesis
      by (simp add: show_nat.simps [of n] is_digit_char_of)
  next
    case False
    have "is_digit (char_of (48 + n mod 10))"
      by (rule is_digit_char_of) simp
    with False "1.prems" "1.IH" show ?thesis
      by (auto simp: show_nat.simps [of n])
  qed
qed

lemma show_nat_not_Nil: "show_nat n \<noteq> []"
  by (simp add: show_nat.simps [of n])

lemma digits_value_snoc:
  "digits_value (ds @ [c]) = 10 * digits_value ds + (of_char c - 48)"
  by (simp add: digits_value_def)

lemma digits_value_show_nat: "digits_value (show_nat n) = n"
proof (induction n rule: show_nat.induct)
  case (1 n)
  show ?case
  proof (cases "n < 10")
    case True
    then show ?thesis
      by (simp add: show_nat.simps [of n] digits_value_def)
  next
    case False
    have "(of_char (char_of (48 + n mod 10) :: char) :: nat) = 48 + n mod 10"
      by simp
    with False "1.IH" show ?thesis
      by (simp add: show_nat.simps [of n] digits_value_snoc)
  qed
qed

lemma show_nat_hd_nonzero: "0 < n \<Longrightarrow> hd (show_nat n) \<noteq> CHR ''0''"
proof (induction n rule: show_nat.induct)
  case (1 n)
  show ?case
  proof (cases "n < 10")
    case True
    have "(of_char (char_of (48 + n) :: char) :: nat) = 48 + n"
      using True by simp
    moreover have "(of_char (CHR ''0'') :: nat) = 48"
      by simp
    ultimately have "char_of (48 + n) \<noteq> CHR ''0''"
      using "1.prems" by (metis add_cancel_right_right less_numeral_extra(3))
    with True show ?thesis
      by (simp add: show_nat.simps [of n])
  next
    case False
    then have "0 < n div 10" by simp
    with False "1.IH" have "hd (show_nat (n div 10)) \<noteq> CHR ''0''" by simp
    with False show ?thesis
      by (simp add: show_nat.simps [of n] show_nat_not_Nil)
  qed
qed

lemma show_nat_leading_zero:
  "hd (show_nat n) = CHR ''0'' \<Longrightarrow> length (show_nat n) = 1"
  using show_nat_hd_nonzero [of n] by (cases "n = 0") (simp_all add: show_nat.simps [of 0])

lemma number_follow_not_digit:
  "number_follow rest \<Longrightarrow> takeWhile is_digit rest = [] \<and> dropWhile is_digit rest = rest"
  by (cases rest) (auto simp: number_follow_def is_digit_def)

lemma parse_unsigned_show_nat:
  assumes "number_follow rest"
  shows "parse_unsigned (show_nat n @ rest) = Some (n, rest)"
proof -
  have t: "takeWhile is_digit (show_nat n @ rest) = show_nat n"
    using number_follow_not_digit [OF assms] by (simp add: takeWhile_append2 show_nat_digits)
  have d: "dropWhile is_digit (show_nat n @ rest) = rest"
    using number_follow_not_digit [OF assms] by (simp add: dropWhile_append2 show_nat_digits)
  have z: "\<not> (hd (show_nat n) = CHR ''0'' \<and> 1 < length (show_nat n))"
    using show_nat_leading_zero [of n] by auto
  have f: "\<not> (rest \<noteq> [] \<and> hd rest \<in> {CHR ''.'', CHR ''e'', CHR ''E''})"
    using assms by (auto simp: number_follow_def)
  show ?thesis
    unfolding parse_unsigned_def t d Let_def
    using z f by (simp add: show_nat_not_Nil digits_value_show_nat)
qed

lemma show_nat_hd_digit: "is_digit (hd (show_nat n))"
  using show_nat_digits [of "hd (show_nat n)" n] show_nat_not_Nil [of n] by simp

lemma parse_number_show_int:
  assumes "number_follow rest"
  shows "parse_number (show_int i @ rest) = Some (JNum i, rest)"
proof (cases "i < 0")
  case True
  then show ?thesis
    by (simp add: parse_number_def show_int_def parse_unsigned_show_nat [OF assms])
next
  case False
  obtain c cs where s: "show_nat (nat i) = c # cs"
    using show_nat_not_Nil [of "nat i"] by (cases "show_nat (nat i)") auto
  with show_nat_hd_digit [of "nat i"] have "is_digit c" by simp
  then have "c \<noteq> CHR ''-''" by (auto simp: is_digit_def)
  with False s parse_unsigned_show_nat [OF assms, of "nat i"] show ?thesis
    by (simp add: parse_number_def show_int_def)
qed

lemma skip_ws_start: "\<not> is_ws c \<Longrightarrow> skip_ws (c # cs) = c # cs"
  by (simp add: skip_ws_def)

lemma show_int_first:
  "\<exists>c cs. show_int i = c # cs \<and> (c = CHR ''-'' \<or> is_digit c)"
proof (cases "i < 0")
  case True
  then show ?thesis by (simp add: show_int_def)
next
  case False
  obtain c cs where s: "show_nat (nat i) = c # cs"
    using show_nat_not_Nil [of "nat i"] by (cases "show_nat (nat i)") auto
  with show_nat_hd_digit [of "nat i"] have "is_digit c" by simp
  with False s show ?thesis by (simp add: show_int_def)
qed

lemma stringify_first: "\<exists>c cs. JSON_stringify j = c # cs \<and> value_start c"
proof (cases j)
  case (JNum i)
  obtain c cs where "show_int i = c # cs" "c = CHR ''-'' \<or> is_digit c"
    using show_int_first by blast
  with JNum show ?thesis
    by (auto simp: value_start_def is_ws_def is_digit_def)
qed (auto simp: value_start_def is_ws_def QuoteJSONString_def)

lemma join_commas_Cons:
  "ys \<noteq> [] \<Longrightarrow> join_commas (y # ys) = y @ CHR '','' # join_commas ys"
  by (cases ys) simp_all

lemma number_follow_simps:
  "number_follow (CHR '','' # cs)" "number_follow (CHR '']'' # cs)" "number_follow (CHR ''}'' # cs)"
  "number_follow []"
  by (simp_all add: number_follow_def)

lemma parse_elements_join:
  assumes val: "\<And>x n rest. x \<in> set xs \<Longrightarrow> number_follow rest \<Longrightarrow> length (JSON_stringify x) \<le> n
      \<Longrightarrow> parse_value n (JSON_stringify x @ rest) = Some (x, rest)"
    and "xs \<noteq> []"
    and "length (join_commas (map JSON_stringify xs)) < n"
  shows "parse_elements n (join_commas (map JSON_stringify xs) @ CHR '']'' # rest) = Some (xs, rest)"
  using assms(2,1,3)
proof (induction xs arbitrary: n rule: list_nonempty_induct)
  case (single x)
  from single.prems(2) obtain m where n: "n = Suc m" and m: "length (JSON_stringify x) \<le> m"
    by (cases n) auto
  have "parse_value m (JSON_stringify x @ CHR '']'' # rest) = Some (x, CHR '']'' # rest)"
    by (rule single.prems(1)) (simp_all add: m number_follow_simps)
  then show ?case
    by (simp add: n skip_ws_start is_ws_def)
next
  case (cons x xs)
  have j: "join_commas (map JSON_stringify (x # xs))
      = JSON_stringify x @ CHR '','' # join_commas (map JSON_stringify xs)"
    using cons.hyps by (simp add: join_commas_Cons)
  from cons.prems(2) obtain m where n: "n = Suc m"
    and m: "length (JSON_stringify x) \<le> m"
    and r: "length (join_commas (map JSON_stringify xs)) < m"
    unfolding j by (cases n) auto
  have "parse_value m (JSON_stringify x @ CHR '','' # join_commas (map JSON_stringify xs) @ CHR '']'' # rest)
      = Some (x, CHR '','' # join_commas (map JSON_stringify xs) @ CHR '']'' # rest)"
    by (rule cons.prems(1)) (simp_all add: m number_follow_simps)
  moreover have "parse_elements m (join_commas (map JSON_stringify xs) @ CHR '']'' # rest) = Some (xs, rest)"
    by (rule cons.IH) (simp_all add: cons.prems(1) r)
  ultimately show ?case
    unfolding j by (simp add: n skip_ws_start is_ws_def)
qed

lemma parse_members_join:
  assumes val: "\<And>k v n rest. (k, v) \<in> set kvs \<Longrightarrow> number_follow rest \<Longrightarrow> length (JSON_stringify v) \<le> n
      \<Longrightarrow> parse_value n (JSON_stringify v @ rest) = Some (v, rest)"
    and "kvs \<noteq> []"
    and "length (join_commas (map (\<lambda>(k, v). QuoteJSONString k @ CHR '':'' # JSON_stringify v) kvs)) < n"
  shows "parse_members n
           (join_commas (map (\<lambda>(k, v). QuoteJSONString k @ CHR '':'' # JSON_stringify v) kvs)
              @ CHR ''}'' # rest) = Some (kvs, rest)"
  using assms(2,1,3)
proof (induction kvs arbitrary: n rule: list_nonempty_induct)
  case (single kv)
  obtain k v where kv: "kv = (k, v)" by (cases kv)
  from single.prems(2) obtain m where n: "n = Suc m" and m: "length (JSON_stringify v) \<le> m"
    unfolding kv by (cases n) auto
  have "parse_value m (JSON_stringify v @ CHR ''}'' # rest) = Some (v, CHR ''}'' # rest)"
    by (rule single.prems(1) [of k]) (simp_all add: kv m number_follow_simps)
  then show ?case
    unfolding kv
    by (simp add: n skip_ws_start is_ws_def QuoteJSONString_def parse_chars_quoted)
next
  case (cons kv kvs)
  obtain k v where kv: "kv = (k, v)" by (cases kv)
  let ?J = "join_commas (map (\<lambda>(k, v). QuoteJSONString k @ CHR '':'' # JSON_stringify v) kvs)"
  have j: "join_commas (map (\<lambda>(k, v). QuoteJSONString k @ CHR '':'' # JSON_stringify v) (kv # kvs))
      = QuoteJSONString k @ CHR '':'' # JSON_stringify v @ CHR '','' # ?J"
    using cons.hyps by (simp add: join_commas_Cons kv)
  from cons.prems(2) obtain m where n: "n = Suc m"
    and m: "length (JSON_stringify v) \<le> m"
    and r: "length ?J < m"
    unfolding j by (cases n) auto
  have "parse_value m (JSON_stringify v @ CHR '','' # ?J @ CHR ''}'' # rest)
      = Some (v, CHR '','' # ?J @ CHR ''}'' # rest)"
    by (rule cons.prems(1) [of k]) (simp_all add: kv m number_follow_simps)
  moreover have "parse_members m (?J @ CHR ''}'' # rest) = Some (kvs, rest)"
  proof (rule cons.IH)
    fix k' v' n' rest'
    assume "(k', v') \<in> set kvs" "number_follow rest'" "length (JSON_stringify v') \<le> n'"
    then show "parse_value n' (JSON_stringify v' @ rest') = Some (v', rest')"
      by (intro cons.prems(1) [of k']) simp_all
  qed (rule r)
  ultimately show ?case
    unfolding j
    by (simp add: kv n skip_ws_start is_ws_def QuoteJSONString_def parse_chars_quoted)
qed

lemma foldl_CreateDataProperty:
  "distinct (map fst (acc @ ms)) \<Longrightarrow>
   foldl (\<lambda>obj (k, v). CreateDataProperty obj k v) acc ms = acc @ ms"
proof (induction ms arbitrary: acc)
  case Nil
  then show ?case by simp
next
  case (Cons a ms)
  obtain k v where a: "a = (k, v)" by (cases a)
  from Cons.prems have "k \<notin> set (map fst acc)" by (simp add: a)
  then have "CreateDataProperty acc k v = acc @ [(k, v)]"
    by (simp add: CreateDataProperty_def)
  with Cons.IH [of "acc @ [a]"] Cons.prems show ?case
    by (simp add: a)
qed

lemma object_of_members_distinct:
  "distinct (map fst ms) \<Longrightarrow> object_of_members ms = JObj ms"
  using foldl_CreateDataProperty [of "[]" ms] by (simp add: object_of_members_def)

lemma parse_value_stringify:
  "wf_json j \<Longrightarrow> number_follow rest \<Longrightarrow> length (JSON_stringify j) \<le> n \<Longrightarrow>
   parse_value n (JSON_stringify j @ rest) = Some (j, rest)"
proof (induction j arbitrary: n rest)
  case JNull
  then obtain m where "n = Suc m" by (cases n) auto
  then show ?case
    by (simp add: skip_ws_start is_ws_def parse_literal_def)
next
  case (JBool b)
  then obtain m where "n = Suc m" by (cases n; cases b) auto
  then show ?case
    by (cases b) (simp_all add: skip_ws_start is_ws_def parse_literal_def)
next
  case (JNum i)
  obtain c cs where s: "show_int i = c # cs" and c: "c = CHR ''-'' \<or> is_digit c"
    using show_int_first by blast
  from JNum s obtain m where n: "n = Suc m" by (cases n) auto
  from c have w: "\<not> is_ws c" and o: "c \<noteq> CHR ''[''" "c \<noteq> CHR ''{''" "c \<noteq> CHR 0x22"
      "c \<noteq> CHR ''t''" "c \<noteq> CHR ''f''" "c \<noteq> CHR ''n''"
    by (auto simp: is_ws_def is_digit_def)
  have "parse_value n (show_int i @ rest) = parse_number (show_int i @ rest)"
    unfolding s n using w o by (simp add: skip_ws_start)
  with JNum.prems show ?case
    by (simp add: parse_number_show_int)
next
  case (JStr s)
  then obtain m where "n = Suc m" by (cases n) (auto simp: QuoteJSONString_def)
  then show ?case
    by (simp add: skip_ws_start is_ws_def QuoteJSONString_def parse_chars_quoted)
next
  case (JArr xs)
  from JArr.prems obtain m where n: "n = Suc m"
    and m: "length (join_commas (map JSON_stringify xs)) < m"
    by (cases n) auto
  show ?case
  proof (cases "xs = []")
    case True
    then show ?thesis
      by (simp add: n skip_ws_start is_ws_def)
  next
    case False
    then obtain x xs' where x: "xs = x # xs'" by (cases xs) auto
    obtain c cs where f: "JSON_stringify x = c # cs" and v: "value_start c"
      using stringify_first by blast
    have h: "\<exists>t. join_commas (map JSON_stringify xs) = c # t"
      using f x by (cases xs') simp_all
    have e: "parse_elements m (join_commas (map JSON_stringify xs) @ CHR '']'' # rest) = Some (xs, rest)"
    proof (rule parse_elements_join [OF _ False m])
      fix y n' rest'
      assume "y \<in> set xs" "number_follow rest'" "length (JSON_stringify y) \<le> n'"
      with JArr.prems(1) show "parse_value n' (JSON_stringify y @ rest') = Some (y, rest')"
        by (intro JArr.IH) (simp_all add: list_all_iff)
    qed
    from h obtain t where t: "join_commas (map JSON_stringify xs) = c # t" by blast
    from e show ?thesis
      using v by (simp add: n t skip_ws_start is_ws_def value_start_def)
  qed
next
  case (JObj kvs)
  let ?J = "join_commas (map (\<lambda>(k, v). QuoteJSONString k @ CHR '':'' # JSON_stringify v) kvs)"
  from JObj.prems obtain m where n: "n = Suc m" and m: "length ?J < m"
    by (cases n) auto
  show ?case
  proof (cases "kvs = []")
    case True
    then show ?thesis
      by (simp add: n skip_ws_start is_ws_def)
  next
    case False
    then obtain kv kvs' where x: "kvs = kv # kvs'" by (cases kvs) auto
    have h: "\<exists>t. ?J = CHR 0x22 # t"
      using x by (cases kv; cases kvs') (simp_all add: QuoteJSONString_def)
    have e: "parse_members m (?J @ CHR ''}'' # rest) = Some (kvs, rest)"
    proof (rule parse_members_join [OF _ False m])
      fix k v n' rest'
      assume a: "(k, v) \<in> set kvs" "number_follow rest'" "length (JSON_stringify v) \<le> n'"
      from a(1) JObj.prems(1) have "wf_json v"
        by (auto simp: list_all_iff)
      with a show "parse_value n' (JSON_stringify v @ rest') = Some (v, rest')"
        by (intro JObj.IH [of "(k, v)"]) simp_all
    qed
    from h obtain t where t: "?J = CHR 0x22 # t" by blast
    from JObj.prems(1) have d: "object_of_members kvs = JObj kvs"
      by (simp add: object_of_members_distinct)
    from e show ?thesis
      by (simp add: n t d skip_ws_start is_ws_def)
  qed
qed

lemma JSON_parse_stringify: "wf_json j \<Longrightarrow> JSON_parse (JSON_stringify j) = Inr j"
  using parse_value_stringify [of j "[]" "Suc (length (JSON_stringify j))"]
  by (simp add: JSON_parse_def number_follow_simps skip_ws_def)

lemma setAccountDetail_stores:
  "setAccountDetail w key v =
     (Inr (), w\<lparr>ledger := (ledger w)(key \<mapsto> v),
                trace := trace w @ [SetAccountDetail key (slice_1_m1 (JSON_stringify (JStr v)))]\<rparr>)"
  by (simp add: setAccountDetail_def send_setAccountDetail_def lose_escaping_quoted)

text \<open>
  Claim C6. For every commitment (a well-formed JavaScript value), the detail that
  \<open>setAccountDetail\<close> sends, namely the serialised commitment serialised once more and
  stripped of its outer quotes, loses one level of escaping in the channel and becomes the
  serialised commitment again; \<open>JSON_parse\<close> then yields the commitment itself. So the
  command is accepted, and parsing what the ledger returns under the key reconstructs the
  original commitment.
\<close>

theorem commitment_encoding_roundtrip:
  assumes "wf_json commitment"
  shows "lose_escaping (slice_1_m1 (JSON_stringify (JStr (JSON_stringify commitment))))
           = Some (JSON_stringify commitment)
       \<and> JSON_parse (JSON_stringify commitment) = Inr commitment
       \<and> fst (setAccountDetail w key (JSON_stringify commitment)) = Inr ()
       \<and> map_option JSON_parse
             (fst (getAccountDetail (snd (setAccountDetail w key (JSON_stringify commitment))) key))
           = Some (Inr commitment)"
  using assms
  by (simp add: lose_escaping_quoted JSON_parse_stringify setAccountDetail_stores getAccountDetail_def)

lemma ex_commitment_escapes_wf: "wf_json ex_commitment_escapes"
  by (simp add: ex_commitment_escapes_def ProofValue_def)

text \<open>
  A commitment whose values hold a quote, a backslash, a line feed and a control character.
\<close>

theorem commitment_encoding_roundtrip_witness:
  "wf_json ex_commitment_escapes
   \<and> lose_escaping (slice_1_m1 (JSON_stringify (JStr (JSON_stringify ex_commitment_escapes))))
       = Some (JSON_stringify ex_commitment_escapes)
   \<and> JSON_parse (JSON_stringify ex_commitment_escapes) = Inr ex_commitment_escapes
   \<and> fst (setAccountDetail ex_world ex_token (JSON_stringify ex_commitment_escapes)) = Inr ()
   \<and> map_option JSON_parse
         (fst (getAccountDetail
                (snd (setAccountDetail ex_world ex_token (JSON_stringify ex_commitment_escapes)))
                ex_token))
       = Some (Inr ex_commitment_escapes)"
  using commitment_encoding_roundtrip [OF ex_commitment_escapes_wf, of ex_world ex_token]
    ex_commitment_escapes_wf
  by (intro conjI) simp_all

section \<open>The snapshot\<close>

subsection \<open>The table of the loader\<close>

lemma set_foldl_Set_add: "set (foldl Set_add acc xs) = set acc \<union> set xs"
  by (induction xs arbitrary: acc) (auto simp: Set_add_def)

lemma distinct_foldl_Set_add: "distinct acc \<Longrightarrow> distinct (foldl Set_add acc xs)"
  by (induction xs arbitrary: acc) (auto simp: Set_add_def)

lemma add_property_own:
  "eid \<in> set (map fst tbl) \<Longrightarrow>
   add_property tbl eid property =
     Inr (map (\<lambda>(k, props). if k = eid then (k, Set_add props property) else (k, props)) tbl)"
  by (simp add: add_property_def)

lemma add_keys_own:
  assumes "subject_key s \<in> set (map fst tbl)"
  shows "add_keys tbl s ps =
     Inr (map (\<lambda>(k, props). if k = subject_key s
                 then (k, foldl Set_add props (filter (\<lambda>p. isPropertyObject p (map_of s p)) ps))
                 else (k, props)) tbl)"
  using assms
proof (induction ps arbitrary: tbl)
  case Nil
  show ?case by (induction tbl) auto
next
  case (Cons p ps)
  let ?t = "map (\<lambda>(k, props). if k = subject_key s then (k, Set_add props p) else (k, props)) tbl"
  have k: "map fst ?t = map fst tbl"
    by (induction tbl) auto
  show ?case
  proof (cases "isPropertyObject p (map_of s p)")
    case True
    have "add_keys tbl s (p # ps) = add_keys ?t s ps"
      using True Cons.prems by (simp add: add_property_own)
    also have "\<dots> = Inr (map (\<lambda>(k, props). if k = subject_key s
                 then (k, foldl Set_add props (filter (\<lambda>p. isPropertyObject p (map_of s p)) ps))
                 else (k, props)) ?t)"
      by (rule Cons.IH) (simp only: k Cons.prems)
    finally show ?thesis
      using True by (simp add: case_prod_beta comp_def)
  next
    case False
    then have "add_keys tbl s (p # ps) = add_keys tbl s ps" by simp
    also have "\<dots> = Inr (map (\<lambda>(k, props). if k = subject_key s
                 then (k, foldl Set_add props (filter (\<lambda>p. isPropertyObject p (map_of s p)) ps))
                 else (k, props)) tbl)"
      by (rule Cons.IH) (rule Cons.prems)
    finally show ?thesis
      using False by (simp add: case_prod_beta)
  qed
qed

lemma add_keys_inherited:
  assumes "subject_key s \<notin> set (map fst tbl)"
  shows "add_keys tbl s ps =
     (if \<exists>p \<in> set ps. isPropertyObject p (map_of s p) then Inl TypeError else Inr tbl)"
  using assms by (induction ps) (auto simp: add_property_def)

lemma add_subject_closed_form:
  assumes "subject_key s \<notin> set Object_prototype"
  shows "add_subject tbl s =
     Inr (map (\<lambda>(k, props). if k = subject_key s
            then (k, foldl Set_add props (filter (\<lambda>p. isPropertyObject p (map_of s p)) (map fst s)))
            else (k, props))
         (if subject_key s \<in> set (map fst tbl) then tbl else tbl @ [(subject_key s, [])]))"
proof -
  have e: "ensure_entry tbl (subject_key s)
      = (if subject_key s \<in> set (map fst tbl) then tbl else tbl @ [(subject_key s, [])])"
    using assms by (simp add: ensure_entry_def)
  have "subject_key s \<in> set (map fst (ensure_entry tbl (subject_key s)))"
    unfolding e by simp
  then show ?thesis
    unfolding add_subject_def by (simp only: add_keys_own e)
qed

lemma add_subject_inherited:
  assumes "subject_key s \<in> set Object_prototype" and "subject_key s \<notin> set (map fst tbl)"
  shows "add_subject tbl s =
     (if \<exists>p \<in> set (map fst s). isPropertyObject p (map_of s p) then Inl TypeError else Inr tbl)"
  using assms by (simp add: add_subject_def ensure_entry_def add_keys_inherited)

lemma delta_properties_snoc:
  "delta_properties (ss @ [s]) eid =
     delta_properties ss eid @
       (if subject_key s = eid then filter (\<lambda>p. isPropertyObject p (map_of s p)) (map fst s) else [])"
  by (simp add: delta_properties_def)

lemma add_subject_table_of:
  assumes "subject_key s \<notin> set Object_prototype"
  shows "add_subject (table_of ss) s = Inr (table_of (ss @ [s]))"
proof (cases "subject_key s \<in> set (map subject_key ss)")
  case True
  then have k: "foldl Set_add [] (map subject_key (ss @ [s])) = foldl Set_add [] (map subject_key ss)"
    by (simp add: Set_add_def set_foldl_Set_add)
  from True have e: "subject_key s \<in> set (map fst (table_of ss))"
    by (auto simp: table_of_def comp_def set_foldl_Set_add)
  show ?thesis
    unfolding add_subject_closed_form [OF assms]
    using e unfolding table_of_def k
    by (auto simp: delta_properties_snoc)
next
  case False
  then have k: "foldl Set_add [] (map subject_key (ss @ [s]))
      = foldl Set_add [] (map subject_key ss) @ [subject_key s]"
    by (simp add: Set_add_def set_foldl_Set_add)
  from False have e: "subject_key s \<notin> set (map fst (table_of ss))"
    by (auto simp: table_of_def comp_def set_foldl_Set_add)
  from False have "filter (\<lambda>x. subject_key x = subject_key s) ss = []"
    unfolding filter_empty_conv by (metis image_eqI list.set_map)
  then have n: "delta_properties ss (subject_key s) = []"
    by (simp add: delta_properties_def)
  from False have m: "\<And>x. x \<in> set ss \<Longrightarrow> subject_key x \<noteq> subject_key s"
    by (metis image_eqI list.set_map)
  have "add_subject (table_of ss) s =
     Inr (map (\<lambda>(k, props). if k = subject_key s
            then (k, foldl Set_add props (filter (\<lambda>p. isPropertyObject p (map_of s p)) (map fst s)))
            else (k, props))
         (table_of ss @ [(subject_key s, [])]))"
    unfolding add_subject_closed_form [OF assms] using e by simp
  also have "\<dots> = Inr (table_of (ss @ [s]))"
    unfolding table_of_def k
    using m by (auto simp: delta_properties_snoc n set_foldl_Set_add; blast)
  finally show ?thesis .
qed

lemma addProperties_table_of:
  "list_all (\<lambda>s. subject_key s \<notin> set Object_prototype) ts \<Longrightarrow>
   addProperties (table_of ss) ts = Inr (table_of (ss @ ts))"
proof (induction ts arbitrary: ss)
  case Nil
  then show ?case by simp
next
  case (Cons t ts)
  then have "addProperties (table_of ss) (t # ts) = addProperties (table_of (ss @ [t])) ts"
    by (simp add: add_subject_table_of)
  also have "\<dots> = Inr (table_of ((ss @ [t]) @ ts))"
    using Cons.prems by (intro Cons.IH) simp
  finally show ?case by simp
qed

lemma table_of_spec:
  "table_of (delta_subjects affected)
     = map (\<lambda>eid. (eid, spec_footprint affected eid)) (spec_entities affected)"
  by (simp add: table_of_def spec_footprint_def spec_entities_def)

lemma AffectedLoader_closed_form:
  assumes "plain_identifiers affected"
  shows "AffectedLoader affected
     = Inr (map (\<lambda>eid. (eid, spec_footprint affected eid)) (spec_entities affected))"
proof -
  from assms have d: "list_all (\<lambda>s. subject_key s \<notin> set Object_prototype) (at_delete affected)"
    and i: "list_all (\<lambda>s. subject_key s \<notin> set Object_prototype) (at_insert affected)"
    by (simp_all add: plain_identifiers_def delta_subjects_def)
  have t: "table_of [] = []" by (simp add: table_of_def)
  have "addProperties [] (at_delete affected) = Inr (table_of (at_delete affected))"
    using addProperties_table_of [OF d, of "[]"] by (simp add: t)
  moreover have "addProperties (table_of (at_delete affected)) (at_insert affected)
      = Inr (table_of (at_delete affected @ at_insert affected))"
    by (rule addProperties_table_of [OF i])
  ultimately have "AffectedLoader affected = Inr (table_of (delta_subjects affected))"
    by (simp add: AffectedLoader_def delta_subjects_def)
  then show ?thesis
    by (simp only: table_of_spec)
qed

lemma loader_requests_plain:
  "plain_identifiers affected \<Longrightarrow> loader_requests affected = spec_requests affected"
  by (simp add: loader_requests_def spec_requests_def AffectedLoader_closed_form)

lemma load_requests:
  "load state affected = Inr actualState \<Longrightarrow>
   actualState = map (load_subject state affected) (loader_requests affected)"
  by (auto simp: load_def loader_requests_def split: sum.splits)

lemma load_plain:
  "plain_identifiers affected \<Longrightarrow>
   load state affected = Inr (map (load_subject state affected) (spec_requests affected))"
  by (simp add: load_def spec_requests_def AffectedLoader_closed_form)

lemma set_Object_entries: "set (Object_entries obj) = set obj"
  by (auto simp: Object_entries_def)

lemma distinct_Object_entries:
  assumes "distinct (map fst obj)"
  shows "distinct (map fst (Object_entries obj))"
proof -
  from assms have d: "distinct obj" and i: "inj_on fst (set obj)"
    by (simp_all add: distinct_map)
  have "distinct (Object_entries obj)"
    using d by (auto simp: Object_entries_def)
  with i show ?thesis
    by (simp add: distinct_map set_Object_entries)
qed

lemma distinct_spec_entities: "distinct (spec_entities affected)"
  by (simp add: spec_entities_def distinct_foldl_Set_add)

lemma set_spec_entities:
  "set (spec_entities affected) = subject_key ` set (delta_subjects affected)"
  by (simp add: spec_entities_def set_foldl_Set_add)

lemma set_spec_requests:
  "set (spec_requests affected)
     = (\<lambda>eid. (eid, spec_footprint affected eid)) ` set (spec_entities affected)"
  by (simp add: spec_requests_def set_Object_entries)

lemma keys_spec_requests:
  "distinct (map fst (spec_requests affected))"
  "set (map fst (spec_requests affected)) = set (spec_entities affected)"
proof -
  have "map fst (map (\<lambda>eid. (eid, spec_footprint affected eid)) (spec_entities affected))
      = spec_entities affected"
    by (simp add: comp_def)
  then show "distinct (map fst (spec_requests affected))"
    unfolding spec_requests_def
    by (intro distinct_Object_entries) (simp add: distinct_spec_entities)
  show "set (map fst (spec_requests affected)) = set (spec_entities affected)"
    by (auto simp: set_spec_requests image_image)
qed

lemma set_spec_footprint:
  "set (spec_footprint affected eid) = set (delta_properties (delta_subjects affected) eid)"
  by (simp add: spec_footprint_def set_foldl_Set_add)

lemma in_delta_properties:
  "p \<in> set (delta_properties ss eid) \<longleftrightarrow>
     (\<exists>s \<in> set ss. subject_key s = eid \<and> isPropertyObject p (map_of s p))"
proof -
  have "\<And>s. isPropertyObject p (map_of s p) \<Longrightarrow> p \<in> fst ` set s"
    by (auto simp: isPropertyObject_def dest: map_of_SomeD intro: rev_image_eqI)
  then show ?thesis
    by (auto simp: delta_properties_def)
qed

subsection \<open>The final state of a subject\<close>

lemma delta_properties_not_id:
  "p \<in> set (delta_properties ss eid) \<Longrightarrow> p \<noteq> ''@id''"
  by (auto simp: delta_properties_def isPropertyObject_def)

lemma updated_entry_keys: "(k, v) \<in> set (updated_entry s affected p) \<Longrightarrow> k = p"
  by (auto simp: updated_entry_def Let_def split: if_splits)

lemma updated_entry_key_iff:
  "p \<in> fst ` set (updated_entry s affected q) \<longleftrightarrow> p = q \<and> updated_values s affected q \<noteq> []"
  by (auto simp: updated_entry_def Let_def)

lemma map_of_concat_other:
  "\<forall>x \<in> set xs. k \<notin> fst ` set (f x) \<Longrightarrow> map_of (concat (map f xs)) k = None"
  by (induction xs) (auto simp: map_add_def map_of_eq_None_iff split: option.splits)

lemma map_of_updated_id:
  "map_of (concat (map (\<lambda>(k, v). if isPropertyObject k (Some v)
                                    then updated_entry s affected k else [(k, v)]) xs)) ''@id''
     = map_of xs ''@id''"
proof (induction xs)
  case Nil
  then show ?case by simp
next
  case (Cons a xs)
  obtain k v where a: "a = (k, v)" by (cases a)
  show ?case
  proof (cases "isPropertyObject k (Some v)")
    case True
    then have "k \<noteq> ''@id''" by (simp add: isPropertyObject_def)
    then have "map_of (updated_entry s affected k) ''@id'' = None"
      by (auto simp: map_of_eq_None_iff dest: updated_entry_keys)
    with Cons a True \<open>k \<noteq> ''@id''\<close> show ?thesis
      by (simp add: map_add_def)
  next
    case False
    with Cons a show ?thesis by simp
  qed
qed

lemma updateSubject_id: "map_of (updateSubject s affected) ''@id'' = map_of s ''@id''"
proof -
  define touched where "touched = foldl Set_add []
            (filter (\<lambda>p. p \<notin> set (map fst s))
               (delta_properties (at_delete affected) (subject_key s)
                @ delta_properties (at_insert affected) (subject_key s)))"
  define body where "body = concat (map (\<lambda>(k, v). if isPropertyObject k (Some v)
                                    then updated_entry s affected k else [(k, v)]) s)"
  have u: "updateSubject s affected = body @ concat (map (updated_entry s affected) touched)"
    by (simp add: updateSubject_def touched_def body_def)
  have "\<forall>x \<in> set touched. ''@id'' \<notin> fst ` set (updated_entry s affected x)"
    unfolding touched_def
    by (auto simp: set_foldl_Set_add dest!: updated_entry_keys dest: delta_properties_not_id)
  then have t: "map_of (concat (map (updated_entry s affected) touched)) ''@id'' = None"
    by (rule map_of_concat_other)
  have b: "map_of body ''@id'' = map_of s ''@id''"
    unfolding body_def by (rule map_of_updated_id)
  show ?thesis
    unfolding u by (simp add: map_add_def t b split: option.splits)
qed

lemma updateSubject_key: "subject_key (updateSubject s affected) = subject_key s"
  by (simp add: subject_key_def updateSubject_id)

lemma fetched_key:
  "store_answers state eid props \<Longrightarrow> map_of (fetched state eid props) ''@id'' = Some (JStr eid)"
  by (auto simp: store_answers_def fetched_def split: option.splits)

lemma fetched_subject_key:
  "store_answers state eid props \<Longrightarrow> subject_key (fetched state eid props) = eid"
  by (simp add: subject_key_def fetched_key ToPropertyKey_def)

lemma key_in_concat_map:
  "p \<in> fst ` set (concat (map g xs)) \<longleftrightarrow> (\<exists>x \<in> set xs. p \<in> fst ` set (g x))"
  by auto

lemma keys_updateSubject:
  "p \<in> fst ` set (updateSubject s affected) \<longleftrightarrow>
     (\<exists>v. (p, v) \<in> set s \<and> \<not> isPropertyObject p (Some v))
     \<or> (updated_values s affected p \<noteq> []
          \<and> ((\<exists>v. (p, v) \<in> set s \<and> isPropertyObject p (Some v))
             \<or> (p \<notin> fst ` set s
                 \<and> p \<in> set (delta_properties (at_delete affected @ at_insert affected) (subject_key s)))))"
proof -
  define touched where "touched = foldl Set_add []
            (filter (\<lambda>p. p \<notin> set (map fst s))
               (delta_properties (at_delete affected) (subject_key s)
                @ delta_properties (at_insert affected) (subject_key s)))"
  define g where "g = (\<lambda>(k, v). if isPropertyObject k (Some v)
                                    then updated_entry s affected k else [(k, v)])"
  have u: "updateSubject s affected = concat (map g s) @ concat (map (updated_entry s affected) touched)"
    by (simp add: updateSubject_def touched_def g_def)
  have d: "set (delta_properties (at_delete affected @ at_insert affected) (subject_key s))
      = set (delta_properties (at_delete affected) (subject_key s))
        \<union> set (delta_properties (at_insert affected) (subject_key s))"
    by (simp add: delta_properties_def)
  have t: "set touched = {q. q \<notin> fst ` set s
      \<and> q \<in> set (delta_properties (at_delete affected @ at_insert affected) (subject_key s))}"
    unfolding touched_def d by (auto simp: set_foldl_Set_add)
  have 1: "p \<in> fst ` set (concat (map g s)) \<longleftrightarrow>
      (\<exists>v. (p, v) \<in> set s \<and> \<not> isPropertyObject p (Some v))
      \<or> (updated_values s affected p \<noteq> [] \<and> (\<exists>v. (p, v) \<in> set s \<and> isPropertyObject p (Some v)))"
  proof -
    have g1: "\<And>k v. p \<in> fst ` set (g (k, v)) \<longleftrightarrow>
        p = k \<and> (isPropertyObject k (Some v) \<longrightarrow> updated_values s affected k \<noteq> [])"
      by (auto simp: g_def updated_entry_key_iff)
    have "p \<in> fst ` set (concat (map g s)) \<longleftrightarrow> (\<exists>k v. (k, v) \<in> set s \<and> p \<in> fst ` set (g (k, v)))"
      unfolding key_in_concat_map by auto
    then show ?thesis
      unfolding g1 by blast
  qed
  have 2: "p \<in> fst ` set (concat (map (updated_entry s affected) touched)) \<longleftrightarrow>
      updated_values s affected p \<noteq> [] \<and> p \<in> set touched"
    unfolding key_in_concat_map by (auto simp: updated_entry_key_iff)
  have "p \<in> fst ` set (updateSubject s affected) \<longleftrightarrow>
      p \<in> fst ` set (concat (map g s))
      \<or> p \<in> fst ` set (concat (map (updated_entry s affected) touched))"
    unfolding u by (simp add: image_Un)
  then show ?thesis
    unfolding 1 2 t by blast
qed

lemma keys_final_subject:
  assumes "store_answers state eid (spec_footprint affected eid)"
  shows "p \<in> fst ` set (updateSubject (fetched state eid (spec_footprint affected eid)) affected)
     \<longleftrightarrow> p = ''@id''
         \<or> (p \<in> set (spec_footprint affected eid)
            \<and> updated_values (fetched state eid (spec_footprint affected eid)) affected p \<noteq> [])"
proof -
  define f where "f = fetched state eid (spec_footprint affected eid)"
  have k: "subject_key f = eid"
    unfolding f_def using assms by (rule fetched_subject_key)
  have i: "map_of f ''@id'' = Some (JStr eid)"
    unfolding f_def using assms by (rule fetched_key)
  have e: "\<And>k v. (k, v) \<in> set f \<Longrightarrow>
      k = ''@id'' \<or> (k \<in> set (spec_footprint affected eid) \<and> isPropertyObject k (Some v))"
    using assms unfolding f_def
    by (auto simp: store_answers_def fetched_def list_all_iff split: option.splits)
  have n: "\<And>v. \<not> isPropertyObject ''@id'' v"
    by (simp add: isPropertyObject_def)
  from i obtain v0 where v0: "(''@id'', v0) \<in> set f"
    by (auto dest: map_of_SomeD)
  have fp: "set (spec_footprint affected eid)
      = set (delta_properties (at_delete affected @ at_insert affected) eid)"
    by (simp add: set_spec_footprint delta_subjects_def)
  have ni: "''@id'' \<notin> set (spec_footprint affected eid)"
    unfolding fp using delta_properties_not_id by blast
  have m: "p \<in> fst ` set f \<longleftrightarrow> (\<exists>v. (p, v) \<in> set f)"
    by force
  have a: "(\<exists>v. (p, v) \<in> set f \<and> \<not> isPropertyObject p (Some v)) \<longleftrightarrow> p = ''@id''"
    using e v0 n by blast
  have b: "(\<exists>v. (p, v) \<in> set f \<and> isPropertyObject p (Some v))
      \<longleftrightarrow> p \<in> set (spec_footprint affected eid) \<and> p \<in> fst ` set f"
    unfolding m using e n ni by blast
  have "p \<in> fst ` set (updateSubject f affected) \<longleftrightarrow>
      p = ''@id'' \<or> (p \<in> set (spec_footprint affected eid) \<and> updated_values f affected p \<noteq> [])"
    unfolding keys_updateSubject k fp [symmetric] a b by blast
  then show ?thesis
    by (simp add: f_def)
qed

lemma wf_array: "wf_json v \<Longrightarrow> x \<in> set (array v) \<Longrightarrow> wf_json x"
  by (cases v) (auto simp: array_def list_all_iff)

lemma wf_property_values: "wf_subject s \<Longrightarrow> x \<in> set (property_values (JObj s) p) \<Longrightarrow> wf_json x"
proof -
  assume w: "wf_subject s" and x: "x \<in> set (property_values (JObj s) p)"
  then obtain v where v: "map_of s p = Some v" "x \<in> set (array v)"
    by (cases "map_of s p") (auto simp: property_values_def own_property_def)
  then have "(p, v) \<in> set s" by (auto dest: map_of_SomeD)
  with w have "wf_json v" by (auto simp: wf_subject_def list_all_iff)
  with v show ?thesis by (auto intro: wf_array)
qed

lemma wf_delta_values:
  "list_all wf_subject ss \<Longrightarrow> x \<in> set (delta_values ss eid p) \<Longrightarrow> wf_json x"
  by (auto simp: delta_values_def list_all_iff intro: wf_property_values)

lemma wf_updated_values:
  assumes "wf_subject s" and "list_all wf_subject (at_insert affected)"
    and "x \<in> set (updated_values s affected p)"
  shows "wf_json x"
  using assms
  by (auto simp: updated_values_def set_foldl_Set_add intro: wf_property_values wf_delta_values)

lemma wf_minimal_value: "\<forall>x \<in> set vs. wf_json x \<Longrightarrow> wf_json (minimal_value vs)"
  by (cases vs rule: list.exhaust; cases "tl vs") (auto simp: minimal_value_def list_all_iff split: list.splits)

lemma wf_updated_entry:
  assumes "wf_subject s" and "list_all wf_subject (at_insert affected)"
    and "(k, v) \<in> set (updated_entry s affected p)"
  shows "wf_json v"
proof -
  from assms(3) have "v = minimal_value (updated_values s affected p)"
    by (auto simp: updated_entry_def Let_def split: if_splits)
  moreover have "\<forall>x \<in> set (updated_values s affected p). wf_json x"
    using wf_updated_values [OF assms(1,2)] by blast
  ultimately show ?thesis by (simp add: wf_minimal_value)
qed

lemma updated_entry_fst: "map fst (updated_entry s affected p) = (if updated_values s affected p = [] then [] else [p])"
  by (simp add: updated_entry_def Let_def)

lemma distinct_body_keys:
  assumes "\<And>x. map fst (g x) = [] \<or> map fst (g x) = [fst x]"
  shows "distinct (map fst xs) \<Longrightarrow> distinct (map fst (concat (map g xs)))
     \<and> set (map fst (concat (map g xs))) \<subseteq> set (map fst xs)"
proof (induction xs)
  case Nil
  then show ?case by simp
next
  case (Cons x xs)
  then have ih: "distinct (map fst (concat (map g xs)))"
    "set (map fst (concat (map g xs))) \<subseteq> set (map fst xs)"
    by simp_all
  from Cons.prems have n: "fst x \<notin> set (map fst xs)" by simp
  from assms [of x] show ?case
  proof
    assume "map fst (g x) = []"
    with ih show ?thesis by auto
  next
    assume "map fst (g x) = [fst x]"
    with ih n show ?thesis by auto
  qed
qed

lemma distinct_filter_keys:
  "distinct ps \<Longrightarrow> distinct (map fst (concat (map (updated_entry s affected) ps)))
     \<and> set (map fst (concat (map (updated_entry s affected) ps))) \<subseteq> set ps"
  by (induction ps) (auto simp: updated_entry_fst)

lemma distinct_updateSubject:
  assumes "distinct (map fst s)"
  shows "distinct (map fst (updateSubject s affected))"
proof -
  define touched where "touched = foldl Set_add []
            (filter (\<lambda>p. p \<notin> set (map fst s))
               (delta_properties (at_delete affected) (subject_key s)
                @ delta_properties (at_insert affected) (subject_key s)))"
  define g where "g = (\<lambda>(k, v). if isPropertyObject k (Some v)
                                    then updated_entry s affected k else [(k, v)])"
  have u: "updateSubject s affected = concat (map g s) @ concat (map (updated_entry s affected) touched)"
    by (simp add: updateSubject_def touched_def g_def)
  have gk: "\<And>x. map fst (g x) = [] \<or> map fst (g x) = [fst x]"
    by (auto simp: g_def updated_entry_def Let_def split: prod.splits)
  note b = distinct_body_keys [of g s, OF gk assms]
  have dt: "distinct touched"
    unfolding touched_def by (simp add: distinct_foldl_Set_add)
  note t = distinct_filter_keys [OF dt, of s affected]
  have "set touched \<inter> set (map fst s) = {}"
    unfolding touched_def by (auto simp: set_foldl_Set_add)
  with b t have "set (map fst (concat (map g s)))
      \<inter> set (map fst (concat (map (updated_entry s affected) touched))) = {}"
    by blast
  with b t show ?thesis
    unfolding u by simp
qed

lemma wf_updateSubject:
  assumes "wf_subject s" and "list_all wf_subject (at_insert affected)"
  shows "wf_subject (updateSubject s affected)"
proof -
  from assms(1) have d: "distinct (map fst s)" by (simp add: wf_subject_def)
  have "\<And>k v. (k, v) \<in> set (updateSubject s affected) \<Longrightarrow> wf_json v"
  proof -
    fix k v assume "(k, v) \<in> set (updateSubject s affected)"
    then consider (old) "(k, v) \<in> set s"
      | (new) p where "(k, v) \<in> set (updated_entry s affected p)"
      by (auto simp: updateSubject_def split: if_splits)
    then show "wf_json v"
    proof cases
      case old
      with assms(1) show ?thesis by (auto simp: wf_subject_def list_all_iff)
    next
      case new
      then show ?thesis by (rule wf_updated_entry [OF assms])
    qed
  qed
  with distinct_updateSubject [OF d, of affected] show ?thesis
    by (auto simp: wf_subject_def list_all_iff)
qed

subsection \<open>The snapshot of a delta\<close>

lemma store_contract_request:
  "store_contract state affected \<Longrightarrow> (eid, props) \<in> set (loader_requests affected) \<Longrightarrow>
   store_answers state eid props"
  by (auto simp: store_contract_def list_all_iff)

lemma load_ids:
  assumes "store_contract state affected" and "load state affected = Inr actualState"
  shows "\<forall>s \<in> set actualState. \<exists>i. map_of s ''@id'' = Some (JStr i)"
proof
  fix s assume "s \<in> set actualState"
  with load_requests [OF assms(2)] obtain eid props
    where r: "(eid, props) \<in> set (loader_requests affected)"
      and s: "s = updateSubject (fetched state eid props) affected"
    by (auto simp: load_subject_def)
  from store_contract_request [OF assms(1) r] have "map_of s ''@id'' = Some (JStr eid)"
    by (simp add: s updateSubject_id fetched_key)
  then show "\<exists>i. map_of s ''@id'' = Some (JStr i)" by blast
qed

lemma wf_load:
  assumes "wf_inputs state affected" and "load state affected = Inr actualState"
  shows "list_all wf_subject actualState"
proof -
  from assms(1) have i: "list_all wf_subject (at_insert affected)"
    by (simp add: wf_inputs_def)
  from assms(1) have "\<And>eid props. (eid, props) \<in> set (loader_requests affected) \<Longrightarrow>
      wf_subject (fetched state eid props)"
    by (auto simp: wf_inputs_def list_all_iff)
  then show ?thesis
    unfolding load_requests [OF assms(2)]
    by (auto simp: load_subject_def list_all_iff intro: wf_updateSubject [OF _ i])
qed

text \<open>
  For a delta with plain identifiers and a read state that keeps its contract, the snapshot
  has exactly one subject per entity of the delta, each carrying its identifier, and an
  entity unknown to the store starts from the placeholder \<^verbatim>\<open>{'@id': id}\<close>.
\<close>

lemma snapshot_subjects:
  assumes "plain_identifiers affected" and "store_contract state affected"
  shows "load state affected = Inr (map (load_subject state affected) (spec_requests affected))"
    and "map subject_key (map (load_subject state affected) (spec_requests affected))
           = map fst (spec_requests affected)"
    and "distinct (map fst (spec_requests affected))"
    and "set (map fst (spec_requests affected))
           = subject_key ` set (at_delete affected @ at_insert affected)"
    and "state eid props = None \<Longrightarrow>
           load_subject state affected (eid, props) = updateSubject [(''@id'', JStr eid)] affected"
proof -
  show "load state affected = Inr (map (load_subject state affected) (spec_requests affected))"
    using assms(1) by (rule load_plain)
  have "map (subject_key \<circ> load_subject state affected) (spec_requests affected)
      = map fst (spec_requests affected)"
  proof (rule map_cong [OF refl])
    fix r assume r: "r \<in> set (spec_requests affected)"
    obtain eid props where e: "r = (eid, props)" by (cases r)
    with r assms have "store_answers state eid props"
      by (auto simp: loader_requests_plain [symmetric] intro: store_contract_request)
    then show "(subject_key \<circ> load_subject state affected) r = fst r"
      by (simp add: e load_subject_def updateSubject_key fetched_subject_key)
  qed
  then show "map subject_key (map (load_subject state affected) (spec_requests affected))
           = map fst (spec_requests affected)"
    by simp
  show "distinct (map fst (spec_requests affected))"
    by (rule keys_spec_requests)
  show "set (map fst (spec_requests affected))
           = subject_key ` set (at_delete affected @ at_insert affected)"
    by (simp only: keys_spec_requests set_spec_entities delta_subjects_def)
  show "state eid props = None \<Longrightarrow>
           load_subject state affected (eid, props) = updateSubject [(''@id'', JStr eid)] affected"
    by (simp add: load_subject_def fetched_def)
qed

lemma map_insort_key:
  "map f (insort_key (\<lambda>x. g (f x)) a xs) = insort_key g (f a) (map f xs)"
  by (induction xs) simp_all

lemma map_sort_key: "map f (sort_key (\<lambda>x. g (f x)) xs) = sort_key g (map f xs)"
  by (induction xs) (simp_all add: map_insort_key)

lemma keys_Object_entries: "map fst (Object_entries obj) = OrdinaryOwnPropertyKeys (map fst obj)"
proof -
  let ?g = "\<lambda>k. case array_index k of None \<Rightarrow> 0 | Some i \<Rightarrow> (i::nat)"
  have s: "map fst (sort_key (\<lambda>kv. ?g (fst kv)) xs) = sort_key ?g (map fst xs)"
    for xs :: "(string \<times> 'a) list"
    by (rule map_sort_key)
  show ?thesis
    by (simp only: Object_entries_def OrdinaryOwnPropertyKeys_def map_append s filter_map comp_def)
qed

lemma keys_loader_requests:
  "plain_identifiers affected \<Longrightarrow>
   map fst (loader_requests affected) = OrdinaryOwnPropertyKeys (spec_entities affected)"
  by (simp add: loader_requests_plain spec_requests_def keys_Object_entries comp_def)

lemma load_subject_unfolded:
  "load_subject state affected =
     (\<lambda>(eid, props). updateSubject (case state eid props of None \<Rightarrow> [(''@id'', JStr eid)] | Some s \<Rightarrow> s) affected)"
  by (auto simp: load_subject_def fetched_def fun_eq_iff)

lemma load_agree:
  assumes "list_all (\<lambda>(eid, props). state1 eid props = state2 eid props) (loader_requests affected)"
  shows "load state1 affected = load state2 affected"
proof (cases "AffectedLoader affected")
  case (Inl e)
  then show ?thesis by (simp add: load_def)
next
  case (Inr tbl)
  have "map (load_subject state1 affected) (Object_entries tbl)
      = map (load_subject state2 affected) (Object_entries tbl)"
  proof (rule map_cong [OF refl])
    fix entry assume e: "entry \<in> set (Object_entries tbl)"
    obtain eid props where p: "entry = (eid, props)" by (cases entry)
    with e assms Inr have "state1 eid props = state2 eid props"
      by (auto simp: list_all_iff loader_requests_def)
    with p show "load_subject state1 affected entry = load_subject state2 affected entry"
      by (simp add: load_subject_def fetched_def)
  qed
  with Inr show ?thesis by (simp add: load_def)
qed

text \<open>
  Claim C5, as amended. For a listing of the delta with plain identifiers, the snapshot is a
  function of the listing and of the answers of the read state to the requests of the
  loader: two read states that agree on these requests, the first keeping its contract,
  yield the same list. The list holds, for each request in turn, the final state of the
  requested entity, which carries the identifier of the request. The order of the requests
  is that in which \<^verbatim>\<open>Object.entries\<close> enumerates the table of the loader: the identifiers
  that are array indices in ascending numeric order, then the other identifiers in the order
  of their first appearance in the deleted and then the inserted subjects. The loader does
  not sort.
\<close>

theorem load_deterministic:
  assumes "plain_identifiers affected"
    and "store_contract state1 affected"
    and "list_all (\<lambda>(eid, props). state1 eid props = state2 eid props) (loader_requests affected)"
  shows "load state1 affected = load state2 affected
       \<and> load state1 affected =
           Inr (map (\<lambda>(eid, props).
                  updateSubject (case state1 eid props of
                                   None \<Rightarrow> [(''@id'', JStr eid)] | Some s \<Rightarrow> s) affected)
                (loader_requests affected))
       \<and> map subject_key
             (map (\<lambda>(eid, props).
                  updateSubject (case state1 eid props of
                                   None \<Rightarrow> [(''@id'', JStr eid)] | Some s \<Rightarrow> s) affected)
                (loader_requests affected))
           = map fst (loader_requests affected)
       \<and> map fst (loader_requests affected) = OrdinaryOwnPropertyKeys (spec_entities affected)"
proof -
  note r = loader_requests_plain [OF assms(1)]
  have 1: "load state1 affected = load state2 affected"
    using assms(3) by (rule load_agree)
  have 2: "load state1 affected =
           Inr (map (\<lambda>(eid, props).
                  updateSubject (case state1 eid props of
                                   None \<Rightarrow> [(''@id'', JStr eid)] | Some s \<Rightarrow> s) affected)
                (loader_requests affected))"
    unfolding load_subject_unfolded [symmetric] r using assms(1) by (rule load_plain)
  have 3: "map subject_key
             (map (\<lambda>(eid, props).
                  updateSubject (case state1 eid props of
                                   None \<Rightarrow> [(''@id'', JStr eid)] | Some s \<Rightarrow> s) affected)
                (loader_requests affected))
           = map fst (loader_requests affected)"
    unfolding load_subject_unfolded [symmetric] r using assms(1,2) by (rule snapshot_subjects(2))
  have 4: "map fst (loader_requests affected) = OrdinaryOwnPropertyKeys (spec_entities affected)"
    using assms(1) by (rule keys_loader_requests)
  show ?thesis
    by (rule conjI, rule 1, rule conjI, rule 2, rule conjI, rule 3, rule 4)
qed

lemma ex_load_with_index:
  "load ex_state_fred ex_with_index =
     Inr [[(''@id'', JStr ''7''), (''name'', JStr ''Seven'')],
          [(''@id'', JStr ''fred''), (''name'', JStr ''Frederick'')],
          [(''@id'', JStr ''carol''), (''name'', JStr ''Carol'')]]"
  by code_simp

text \<open>
  Two stores that differ in Fred's age and role agree on the snapshot of a delta about the
  names of Fred, Carol and the entity \<^verbatim>\<open>7\<close>, which is listed last and enumerated first.
\<close>

theorem load_deterministic_witness:
  "plain_identifiers ex_with_index
   \<and> store_contract ex_state_fred ex_with_index
   \<and> list_all (\<lambda>(eid, props). ex_state_fred eid props = ex_state_other eid props)
       (loader_requests ex_with_index)
   \<and> ex_state_fred ''fred'' [''age''] \<noteq> ex_state_other ''fred'' [''age'']
   \<and> load ex_state_fred ex_with_index = load ex_state_other ex_with_index
   \<and> load ex_state_fred ex_with_index =
       Inr [[(''@id'', JStr ''7''), (''name'', JStr ''Seven'')],
            [(''@id'', JStr ''fred''), (''name'', JStr ''Frederick'')],
            [(''@id'', JStr ''carol''), (''name'', JStr ''Carol'')]]
   \<and> spec_entities ex_with_index = [''fred'', ''carol'', ''7'']
   \<and> map fst (loader_requests ex_with_index) = [''7'', ''fred'', ''carol'']"
proof -
  have p: "plain_identifiers ex_with_index"
    by code_simp
  have c: "store_contract ex_state_fred ex_with_index"
    by code_simp
  have a: "list_all (\<lambda>(eid, props). ex_state_fred eid props = ex_state_other eid props)
       (loader_requests ex_with_index)"
    by code_simp
  have d: "ex_state_fred ''fred'' [''age''] \<noteq> ex_state_other ''fred'' [''age'']"
    by code_simp
  note t = load_deterministic [OF p c a]
  from t have 1: "load ex_state_fred ex_with_index = load ex_state_other ex_with_index"
    by (rule conjunct1)
  have e: "spec_entities ex_with_index = [''fred'', ''carol'', ''7'']"
    by code_simp
  have o: "OrdinaryOwnPropertyKeys [''fred'', ''carol'', ''7''] = [''7'', ''fred'', ''carol'']"
    by code_simp
  from t have "map fst (loader_requests ex_with_index)
      = OrdinaryOwnPropertyKeys (spec_entities ex_with_index)"
    by (elim conjE)
  then have 4: "map fst (loader_requests ex_with_index) = [''7'', ''fred'', ''carol'']"
    by (simp only: e o)
  from p c a d 1 ex_load_with_index e 4 show ?thesis
    by (intro conjI)
qed

text \<open>
  Claim C5 as stated fails for a delta taken as a set of facts: two listings of the same
  inserted triples about Fred and Carol yield the same two subjects in different orders, so
  the lists are not equal, and the first one is not sorted by identifier.
\<close>

theorem load_order_counterexample:
  "set (spec_triples (at_delete ex_fred_then_carol)) = set (spec_triples (at_delete ex_carol_then_fred))
   \<and> set (spec_triples (at_insert ex_fred_then_carol)) = set (spec_triples (at_insert ex_carol_then_fred))
   \<and> load ex_state_fred ex_fred_then_carol =
       Inr [[(''@id'', JStr ''fred''), (''name'', JStr ''Fred'')],
            [(''@id'', JStr ''carol''), (''name'', JStr ''Carol'')]]
   \<and> load ex_state_fred ex_carol_then_fred =
       Inr [[(''@id'', JStr ''carol''), (''name'', JStr ''Carol'')],
            [(''@id'', JStr ''fred''), (''name'', JStr ''Fred'')]]
   \<and> load ex_state_fred ex_fred_then_carol \<noteq> load ex_state_fred ex_carol_then_fred"
proof -
  have 1: "set (spec_triples (at_delete ex_fred_then_carol))
      = set (spec_triples (at_delete ex_carol_then_fred))"
    by (simp add: ex_fred_then_carol_def ex_carol_then_fred_def)
  have i1: "spec_triples (at_insert ex_fred_then_carol)
      = [(''fred'', ''name'', JStr ''Fred''), (''carol'', ''name'', JStr ''Carol'')]"
    by code_simp
  have i2: "spec_triples (at_insert ex_carol_then_fred)
      = [(''carol'', ''name'', JStr ''Carol''), (''fred'', ''name'', JStr ''Fred'')]"
    by code_simp
  have 2: "set (spec_triples (at_insert ex_fred_then_carol))
      = set (spec_triples (at_insert ex_carol_then_fred))"
    unfolding i1 i2 by auto
  have 3: "load ex_state_fred ex_fred_then_carol =
       Inr [[(''@id'', JStr ''fred''), (''name'', JStr ''Fred'')],
            [(''@id'', JStr ''carol''), (''name'', JStr ''Carol'')]]"
    by code_simp
  have 4: "load ex_state_fred ex_carol_then_fred =
       Inr [[(''@id'', JStr ''carol''), (''name'', JStr ''Carol'')],
            [(''@id'', JStr ''fred''), (''name'', JStr ''Fred'')]]"
    by code_simp
  have 5: "load ex_state_fred ex_fred_then_carol \<noteq> load ex_state_fred ex_carol_then_fred"
    unfolding 3 4 by simp
  from 1 2 3 4 5 show ?thesis
    by (intro conjI)
qed

text \<open>
  Claim C4, as amended. For a delta with plain identifiers and a read state that answers each
  request with the requested entity and with requested properties only, the loader requests
  for each entity exactly the properties that the delta mentions for it, and the final
  subject of the entity has, besides \<^verbatim>\<open>'@id'\<close>, exactly those mentioned properties for which
  a value remains once the delta is applied. No other property appears; a mentioned property
  whose values are all deleted is left out.
\<close>

theorem load_footprint:
  assumes "plain_identifiers affected" and "store_contract state affected"
  shows "loader_requests affected = spec_requests affected
       \<and> (\<forall>(eid, props) \<in> set (spec_requests affected). \<forall>p.
            (p \<in> set props \<longleftrightarrow>
               (\<exists>s \<in> set (at_delete affected @ at_insert affected).
                  subject_key s = eid \<and> isPropertyObject p (map_of s p)))
          \<and> (p \<in> fst ` set (load_subject state affected (eid, props))
               \<longleftrightarrow> p = ''@id''
                   \<or> (p \<in> set props \<and> updated_values (fetched state eid props) affected p \<noteq> [])))
       \<and> load state affected = Inr (map (load_subject state affected) (spec_requests affected))"
proof -
  have "\<forall>(eid, props) \<in> set (spec_requests affected). \<forall>p.
            (p \<in> set props \<longleftrightarrow>
               (\<exists>s \<in> set (at_delete affected @ at_insert affected).
                  subject_key s = eid \<and> isPropertyObject p (map_of s p)))
          \<and> (p \<in> fst ` set (load_subject state affected (eid, props))
               \<longleftrightarrow> p = ''@id''
                   \<or> (p \<in> set props \<and> updated_values (fetched state eid props) affected p \<noteq> []))"
  proof (intro ballI, clarify, intro conjI)
    fix eid props p
    assume r: "(eid, props) \<in> set (spec_requests affected)"
    then have props: "props = spec_footprint affected eid"
      by (auto simp: set_spec_requests)
    show "p \<in> set props \<longleftrightarrow>
               (\<exists>s \<in> set (at_delete affected @ at_insert affected).
                  subject_key s = eid \<and> isPropertyObject p (map_of s p))"
      unfolding props by (simp only: set_spec_footprint in_delta_properties delta_subjects_def)
    from r assms have "store_answers state eid (spec_footprint affected eid)"
      unfolding props [symmetric]
      by (auto simp: loader_requests_plain [symmetric] intro: store_contract_request)
    then show "p \<in> fst ` set (load_subject state affected (eid, props))
               \<longleftrightarrow> p = ''@id''
                   \<or> (p \<in> set props \<and> updated_values (fetched state eid props) affected p \<noteq> [])"
      unfolding props load_subject_def prod.case by (rule keys_final_subject)
  qed
  with loader_requests_plain [OF assms(1)] load_plain [OF assms(1), of state]
  show ?thesis by (intro conjI)
qed

lemma ex_contract_fred_and_bob: "store_contract ex_state_fred ex_fred_and_bob"
  by code_simp

lemma ex_plain_fred_and_bob: "plain_identifiers ex_fred_and_bob"
  by code_simp

lemma ex_load_fred_and_bob:
  "load ex_state_fred ex_fred_and_bob =
     Inr [[(''@id'', JStr ''fred'')],
          [(''@id'', JStr ''bob''), (''name'', JStr ''Bob''),
           (''role'', JArr [JStr ''admin'', JStr ''user''])]]"
  by code_simp

text \<open>
  Claim C4 as stated fails: the delta that deletes Fred's name mentions the property
  \<^verbatim>\<open>name\<close>, which is requested from the store, yet Fred's final subject is
  \<^verbatim>\<open>{'@id': 'fred'}\<close>.
\<close>

theorem load_footprint_counterexample:
  "store_contract ex_state_fred ex_delete_fred
   \<and> plain_identifiers ex_delete_fred
   \<and> at_delete ex_delete_fred = [[(''@id'', JStr ''fred''), (''name'', JStr ''Fred'')]]
   \<and> isPropertyObject ''name'' (Some (JStr ''Fred''))
   \<and> loader_requests ex_delete_fred = [(''fred'', [''name''])]
   \<and> load ex_state_fred ex_delete_fred = Inr [[(''@id'', JStr ''fred'')]]
   \<and> ''name'' \<notin> fst ` set (load_subject ex_state_fred ex_delete_fred (''fred'', [''name'']))"
proof -
  have c: "store_contract ex_state_fred ex_delete_fred"
    by code_simp
  have p: "plain_identifiers ex_delete_fred"
    by code_simp
  have a: "at_delete ex_delete_fred = [[(''@id'', JStr ''fred''), (''name'', JStr ''Fred'')]]"
    by (simp add: ex_delete_fred_def)
  have b: "isPropertyObject ''name'' (Some (JStr ''Fred''))"
    by (simp add: isPropertyObject_def)
  have r: "loader_requests ex_delete_fred = [(''fred'', [''name''])]"
    by code_simp
  have d: "load ex_state_fred ex_delete_fred = Inr [[(''@id'', JStr ''fred'')]]"
    by code_simp
  have "load_subject ex_state_fred ex_delete_fred (''fred'', [''name'']) = [(''@id'', JStr ''fred'')]"
    by code_simp
  then have e: "''name'' \<notin> fst ` set (load_subject ex_state_fred ex_delete_fred (''fred'', [''name'']))"
    by simp
  from c p a b r d e show ?thesis
    by (intro conjI)
qed

text \<open>
  The footprint of a delta about Fred, who loses his name, and Bob, who is new.
\<close>

theorem load_footprint_witness:
  "plain_identifiers ex_fred_and_bob
   \<and> store_contract ex_state_fred ex_fred_and_bob
   \<and> loader_requests ex_fred_and_bob = [(''fred'', [''name'']), (''bob'', [''name'', ''role''])]
   \<and> updated_values (fetched ex_state_fred ''fred'' [''name'']) ex_fred_and_bob ''name'' = []
   \<and> ''name'' \<notin> fst ` set (load_subject ex_state_fred ex_fred_and_bob (''fred'', [''name'']))
   \<and> ''role'' \<in> fst ` set (load_subject ex_state_fred ex_fred_and_bob (''bob'', [''name'', ''role'']))
   \<and> load ex_state_fred ex_fred_and_bob =
       Inr [[(''@id'', JStr ''fred'')],
            [(''@id'', JStr ''bob''), (''name'', JStr ''Bob''),
             (''role'', JArr [JStr ''admin'', JStr ''user''])]]"
proof -
  note t = load_footprint [OF ex_plain_fred_and_bob ex_contract_fred_and_bob]
  have s: "spec_requests ex_fred_and_bob = [(''fred'', [''name'']), (''bob'', [''name'', ''role''])]"
    by code_simp
  from t have "loader_requests ex_fred_and_bob = spec_requests ex_fred_and_bob"
    by (rule conjunct1)
  with s have a: "loader_requests ex_fred_and_bob
      = [(''fred'', [''name'']), (''bob'', [''name'', ''role''])]"
    by (simp only:)
  have u: "updated_values (fetched ex_state_fred ''fred'' [''name'']) ex_fred_and_bob ''name'' = []"
    by code_simp
  have r: "updated_values (fetched ex_state_fred ''bob'' [''name'', ''role'']) ex_fred_and_bob ''role''
      \<noteq> []"
    by code_simp
  from t have k: "\<forall>(eid, props) \<in> set (spec_requests ex_fred_and_bob). \<forall>p.
            (p \<in> set props \<longleftrightarrow>
               (\<exists>s \<in> set (at_delete ex_fred_and_bob @ at_insert ex_fred_and_bob).
                  subject_key s = eid \<and> isPropertyObject p (map_of s p)))
          \<and> (p \<in> fst ` set (load_subject ex_state_fred ex_fred_and_bob (eid, props))
               \<longleftrightarrow> p = ''@id''
                   \<or> (p \<in> set props
                      \<and> updated_values (fetched ex_state_fred eid props) ex_fred_and_bob p \<noteq> []))"
    by (elim conjE)
  have mf: "(''fred'', [''name'']) \<in> set (spec_requests ex_fred_and_bob)"
    and mb: "(''bob'', [''name'', ''role'']) \<in> set (spec_requests ex_fred_and_bob)"
    by (simp_all add: s)
  have ne: "''name'' \<noteq> ''@id''"
    by simp
  note kn = k [THEN bspec, OF mf, unfolded prod.case, THEN spec, of "''name''", THEN conjunct2]
  from kn u have n: "''name'' \<notin> fst ` set (load_subject ex_state_fred ex_fred_and_bob (''fred'', [''name'']))"
    by (simp only: ne simp_thms)
  have rf: "''role'' \<in> set [''name'', ''role'']"
    by simp
  note kr = k [THEN bspec, OF mb, unfolded prod.case, THEN spec, of "''role''", THEN conjunct2]
  from kr r rf have q: "''role'' \<in> fst ` set (load_subject ex_state_fred ex_fred_and_bob
      (''bob'', [''name'', ''role'']))"
    by (simp only: simp_thms)
  from ex_plain_fred_and_bob ex_contract_fred_and_bob a u n q ex_load_fred_and_bob show ?thesis
    by (intro conjI)
qed

text \<open>
  Claim C9 holds for deltas with plain identifiers (\<open>snapshot_subjects\<close>) and fails for an
  entity whose identifier names a member of \<^verbatim>\<open>Object.prototype\<close>. For the entity
  \<^verbatim>\<open>constructor\<close> no entry is created in the table, since the inherited member is read
  in its place. When the delta has a property for the entity, the inherited member is taken
  for the set of its properties and the loader throws: no snapshot is built, and \<open>prove\<close>
  fails before it reads the state or writes to the ledger. When the delta has no property
  for the entity, the snapshot is built without a subject for it.
\<close>

theorem load_inherited_identifier:
  "map subject_key (at_insert ex_insert_constructor) = [''constructor'']
   \<and> AffectedLoader ex_insert_constructor = Inl TypeError
   \<and> load ex_state_empty ex_insert_constructor = Inl TypeError
   \<and> prove ex_world ex_state_empty ex_insert_constructor (Some ex_alice) ex_random_hex
       = (Inl TypeError, ex_world)
   \<and> map subject_key (at_delete ex_delete_bare_constructor @ at_insert ex_delete_bare_constructor)
       = [''constructor'', ''fred'']
   \<and> load ex_state_empty ex_delete_bare_constructor
       = Inr [[(''@id'', JStr ''fred''), (''name'', JStr ''Fred'')]]"
proof -
  have a: "AffectedLoader ex_insert_constructor = Inl TypeError"
    by code_simp
  then have l: "load ex_state_empty ex_insert_constructor = Inl TypeError"
    by (simp add: load_def)
  then have p: "prove ex_world ex_state_empty ex_insert_constructor (Some ex_alice) ex_random_hex
       = (Inl TypeError, ex_world)"
    by (simp add: prove_def)
  have k: "map subject_key (at_insert ex_insert_constructor) = [''constructor'']"
    by code_simp
  have k2: "map subject_key (at_delete ex_delete_bare_constructor @ at_insert ex_delete_bare_constructor)
       = [''constructor'', ''fred'']"
    by code_simp
  have l2: "load ex_state_empty ex_delete_bare_constructor
       = Inr [[(''@id'', JStr ''fred''), (''name'', JStr ''Fred'')]]"
    by code_simp
  from k a l p k2 l2 show ?thesis
    by (intro conjI)
qed

section \<open>The test of a proof\<close>

subsection \<open>The token and the principal\<close>

lemma find_first_match:
  "\<forall>x \<in> set pre. \<not> P x \<Longrightarrow> P y \<Longrightarrow> find P (pre @ y # post) = Some y"
  by (induction pre) auto

lemma test_key_only:
  assumes "find isProofKey (array proof) = Some (JStr k)"
  shows "test w state affected proof (Some p) = test w state affected (JStr k) (Some p)"
proof -
  from assms have "isProofKey (JStr k)" by (auto simp: find_Some_iff)
  then have "find isProofKey (array (JStr k)) = Some (JStr k)" by (simp add: array_def)
  with assms show ?thesis by (simp add: test_def)
qed

lemma test_queries_key:
  assumes "find isProofKey (array proof) = Some (JStr k)"
  shows "take (Suc (length (trace w))) (trace (snd (test w state affected proof (Some p))))
           = trace w @ [GetAccountDetail k]"
  using assms
  by (auto simp: test_def getAccountDetail_def load_effects_def split: option.splits sum.splits prod.splits)

lemma ex_find_proof_key: "find isProofKey (array ex_proof) = Some (JStr ''pk_deadbeef'')"
  by (simp add: array_def isProofKey_def ex_proof_def startsWith_def PROOF_KEY_PREFIX_def)

text \<open>
  Claim C8. With a principal present, \<open>test\<close> takes as token the first member of the proof
  value that is a string starting with \<^verbatim>\<open>pk_\<close>: members before it that are no strings or
  lack the prefix are skipped, the outcome is that of \<open>test\<close> on the token alone, and the
  ledger is queried for this token. When the proof value has no such member, \<open>test\<close> returns
  \<^verbatim>\<open>'No proof key in update'\<close> and the world is unchanged, so the ledger is not queried.
\<close>

theorem test_proof_key_extraction:
  "((\<forall>x \<in> set (array proof). \<not> isProofKey x) \<longrightarrow>
      test w state affected proof (Some p) = (Inr (Reason ''No proof key in update''), w))
   \<and> (array proof = pre @ JStr k # post \<and> (\<forall>x \<in> set pre. \<not> isProofKey x)
        \<and> startsWith k PROOF_KEY_PREFIX \<longrightarrow>
        test w state affected proof (Some p) = test w state affected (JStr k) (Some p)
        \<and> take (Suc (length (trace w))) (trace (snd (test w state affected proof (Some p))))
            = trace w @ [GetAccountDetail k])"
proof (intro conjI impI)
  assume "\<forall>x \<in> set (array proof). \<not> isProofKey x"
  then have "find isProofKey (array proof) = None" by (simp add: find_None_iff)
  then show "test w state affected proof (Some p) = (Inr (Reason ''No proof key in update''), w)"
    by (simp add: test_def)
next
  assume a: "array proof = pre @ JStr k # post \<and> (\<forall>x \<in> set pre. \<not> isProofKey x)
        \<and> startsWith k PROOF_KEY_PREFIX"
  then have "isProofKey (JStr k)" by (simp add: isProofKey_def)
  with a have f: "find isProofKey (array proof) = Some (JStr k)"
    by (simp add: find_first_match)
  show "test w state affected proof (Some p) = test w state affected (JStr k) (Some p)"
    by (rule test_key_only [OF f])
  show "take (Suc (length (trace w))) (trace (snd (test w state affected proof (Some p))))
            = trace w @ [GetAccountDetail k]"
    by (rule test_queries_key [OF f])
qed

text \<open>
  The extraction at the proof values \<^verbatim>\<open>[7, "unrelated-value"]\<close> and
  \<^verbatim>\<open>["pk_deadbeef", "unrelated-value"]\<close>.
\<close>

theorem test_proof_key_extraction_witness:
  "array (JArr [JNum 7, JStr ''unrelated-value'']) = [JNum 7, JStr ''unrelated-value'']
   \<and> \<not> isProofKey (JNum 7) \<and> \<not> isProofKey (JStr ''unrelated-value'')
   \<and> test ex_ledger ex_state_fred ex_insert_fred (JArr [JNum 7, JStr ''unrelated-value'']) (Some ex_alice)
       = (Inr (Reason ''No proof key in update''), ex_ledger)
   \<and> array ex_proof = [] @ JStr ''pk_deadbeef'' # [JStr ''unrelated-value'']
   \<and> startsWith ''pk_deadbeef'' PROOF_KEY_PREFIX
   \<and> test ex_ledger ex_state_fred ex_insert_fred ex_proof (Some ex_alice)
       = test ex_ledger ex_state_fred ex_insert_fred (JStr ''pk_deadbeef'') (Some ex_alice)
   \<and> take (Suc (length (trace ex_ledger)))
         (trace (snd (test ex_ledger ex_state_fred ex_insert_fred ex_proof (Some ex_alice))))
       = trace ex_ledger @ [GetAccountDetail ''pk_deadbeef'']"
proof -
  have a: "\<forall>x \<in> set (array (JArr [JNum 7, JStr ''unrelated-value''])). \<not> isProofKey x"
    by (simp add: array_def isProofKey_def startsWith_def PROOF_KEY_PREFIX_def)
  have b: "array ex_proof = [] @ JStr ''pk_deadbeef'' # [JStr ''unrelated-value'']"
    by (simp add: array_def ex_proof_def)
  have c: "startsWith ''pk_deadbeef'' PROOF_KEY_PREFIX"
    by (simp add: startsWith_def PROOF_KEY_PREFIX_def)
  have d: "\<forall>x \<in> set ([] :: json list). \<not> isProofKey x"
    by simp
  note t1 = test_proof_key_extraction [of "JArr [JNum 7, JStr ''unrelated-value'']"
          ex_ledger ex_state_fred ex_insert_fred ex_alice]
  note t2 = test_proof_key_extraction [of ex_proof ex_ledger ex_state_fred ex_insert_fred ex_alice
          "[]" "''pk_deadbeef''" "[JStr ''unrelated-value'']"]
  from t1 a have r1: "test ex_ledger ex_state_fred ex_insert_fred
        (JArr [JNum 7, JStr ''unrelated-value'']) (Some ex_alice)
       = (Inr (Reason ''No proof key in update''), ex_ledger)"
    by blast
  from t2 b c d have r2: "test ex_ledger ex_state_fred ex_insert_fred ex_proof (Some ex_alice)
       = test ex_ledger ex_state_fred ex_insert_fred (JStr ''pk_deadbeef'') (Some ex_alice)
   \<and> take (Suc (length (trace ex_ledger)))
         (trace (snd (test ex_ledger ex_state_fred ex_insert_fred ex_proof (Some ex_alice))))
       = trace ex_ledger @ [GetAccountDetail ''pk_deadbeef'']"
    by blast
  have e: "array (JArr [JNum 7, JStr ''unrelated-value'']) = [JNum 7, JStr ''unrelated-value'']
      \<and> \<not> isProofKey (JNum 7) \<and> \<not> isProofKey (JStr ''unrelated-value'')"
    by (simp add: array_def isProofKey_def startsWith_def PROOF_KEY_PREFIX_def)
  from e b c r1 r2 show ?thesis
    by blast
qed

text \<open>
  Claim C3. When the commitment found in the ledger under the token has the \<^verbatim>\<open>pid\<close> field
  \<open>A\<close> and the principal of the update has another identifier, \<open>test\<close> returns
  \<^verbatim>\<open>'Proof principal does not match update principal'\<close>. The only effect is the ledger
  query: the read state is not consulted and the state comparison is not reached.
\<close>

theorem test_principal_mismatch:
  assumes "find isProofKey (array proof) = Some (JStr proofKey)"
    and "ledger w proofKey = Some proofValue"
    and "JSON_parse proofValue = Inr proved"
    and "js_member proved ''pid'' = Inr (Some (JStr A))"
    and "A \<noteq> at_id p"
  shows "test w state affected proof (Some p) =
           (Inr (Reason ''Proof principal does not match update principal''),
            w\<lparr>trace := trace w @ [GetAccountDetail proofKey]\<rparr>)"
  using assms by (simp add: test_def getAccountDetail_def strict_equal_def)

lemma ex_commitment_parse: "JSON_parse (JSON_stringify ex_commitment) = Inr ex_commitment"
  unfolding ex_commitment_def ex_alice_def ProofValue_def by code_simp

text \<open>
  A commitment of Alice tested with Bob as the principal of the update.
\<close>

theorem test_principal_mismatch_witness:
  "find isProofKey (array ex_proof) = Some (JStr ''pk_deadbeef'')
   \<and> ledger ex_ledger ''pk_deadbeef'' = Some (JSON_stringify ex_commitment)
   \<and> JSON_parse (JSON_stringify ex_commitment) = Inr ex_commitment
   \<and> js_member ex_commitment ''pid'' = Inr (Some (JStr (at_id ex_alice)))
   \<and> at_id ex_alice \<noteq> at_id ex_bob
   \<and> test ex_ledger ex_state_fred ex_insert_fred ex_proof (Some ex_bob) =
           (Inr (Reason ''Proof principal does not match update principal''),
            ex_ledger\<lparr>trace := trace ex_ledger @ [GetAccountDetail ''pk_deadbeef'']\<rparr>)"
proof -
  have 1: "find isProofKey (array ex_proof) = Some (JStr ''pk_deadbeef'')"
    by (simp add: array_def isProofKey_def ex_proof_def startsWith_def PROOF_KEY_PREFIX_def)
  have 2: "ledger ex_ledger ''pk_deadbeef'' = Some (JSON_stringify ex_commitment)"
    by (simp add: ex_ledger_def)
  have 4: "js_member ex_commitment ''pid'' = Inr (Some (JStr (at_id ex_alice)))"
    by (simp add: js_member_def own_property_def ex_commitment_def ProofValue_def)
  have 5: "at_id ex_alice \<noteq> at_id ex_bob"
    by (simp add: ex_alice_def ex_bob_def)
  show ?thesis
    using test_principal_mismatch [OF 1 2 ex_commitment_parse 4 5] 1 2 ex_commitment_parse 4 5
    by simp
qed

subsection \<open>The comparison of states\<close>

lemma find_provedSubject_objects:
  "JNull \<notin> set ps \<Longrightarrow>
   find_provedSubject ps i property v =
     Inr (find (\<lambda>x. strict_equal (own_property x ''@id'') i \<and> includesValue x property v) ps)"
  by (induction ps) (auto simp: js_member_def)

lemma find_Some_ex: "(\<exists>y. find P xs = Some y) \<longleftrightarrow> (\<exists>x \<in> set xs. P x)"
  using find_None_iff [of P xs] by (cases "find P xs") auto

lemma proved_state_find_contained:
  assumes "js_member proved ''state'' = Inr (Some (JArr ps))" and "JNull \<notin> set ps"
  shows "(\<exists>found. proved_state_find proved (map_of s ''@id'') property v = Inr (Some found))
           \<longleftrightarrow> spec_contained ps s property v"
    and "proved_state_find proved (map_of s ''@id'') property v = Inr None
           \<longleftrightarrow> \<not> spec_contained ps s property v"
proof -
  have f: "proved_state_find proved (map_of s ''@id'') property v =
      Inr (find (\<lambda>x. strict_equal (own_property x ''@id'') (map_of s ''@id'')
                      \<and> includesValue x property v) ps)"
    using assms by (simp add: proved_state_find_def find_provedSubject_objects)
  show "(\<exists>found. proved_state_find proved (map_of s ''@id'') property v = Inr (Some found))
           \<longleftrightarrow> spec_contained ps s property v"
    unfolding f spec_contained_def by (simp add: find_Some_ex)
  show "proved_state_find proved (map_of s ''@id'') property v = Inr None
           \<longleftrightarrow> \<not> spec_contained ps s property v"
    unfolding f spec_contained_def by (auto simp: find_None_iff)
qed

lemma test_entries_objects:
  assumes "js_member proved ''state'' = Inr (Some (JArr ps))" and "JNull \<notin> set ps"
  shows "test_entries proved s entries =
     Inr (\<forall>(property, v) \<in> set entries.
            isPropertyObject property (Some v) \<longrightarrow> spec_contained ps s property v)"
proof (induction entries)
  case Nil
  then show ?case by simp
next
  case (Cons a entries)
  obtain property v where a: "a = (property, v)" by (cases a)
  show ?case
  proof (cases "isPropertyObject property (Some v)")
    case False
    with Cons a show ?thesis by simp
  next
    case True
    show ?thesis
    proof (cases "spec_contained ps s property v")
      case c: True
      with proved_state_find_contained(1) [OF assms, of s property v]
      obtain found where "proved_state_find proved (map_of s ''@id'') property v = Inr (Some found)"
        by blast
      with Cons a True c show ?thesis by simp
    next
      case c: False
      with proved_state_find_contained(2) [OF assms, of s property v]
      have "proved_state_find proved (map_of s ''@id'') property v = Inr None"
        by blast
      with Cons a True c show ?thesis by simp
    qed
  qed
qed

lemma test_subjects_objects:
  assumes "js_member proved ''state'' = Inr (Some (JArr ps))" and "JNull \<notin> set ps"
  shows "test_subjects proved actualState = Inr (spec_subset ps actualState)"
  by (induction actualState) (auto simp: test_entries_objects [OF assms] spec_subset_def)




lemma test_reaches_comparison:
  assumes "find isProofKey (array proof) = Some (JStr proofKey)"
    and "ledger w proofKey = Some proofValue"
    and "JSON_parse proofValue = Inr proved"
    and "js_member proved ''pid'' = Inr (Some (JStr (at_id p)))"
    and "load state affected = Inr actualState"
  shows "fst (test w state affected proof (Some p)) =
           (case test_subjects proved actualState of
              Inl e \<Rightarrow> Inl e
            | Inr matched \<Rightarrow> if matched then Inr Pass else Inr (Reason ''Proof does not match update''))"
  using assms
  by (simp add: test_def getAccountDetail_def strict_equal_def is_primitive_def split: sum.splits)



lemma ex_load_insert_fred:
  "load ex_state_fred ex_insert_fred = Inr [[(''@id'', JStr ''fred''), (''name'', JStr ''Fred'')]]"
  by code_simp



lemma test_entries_no_properties:
  "\<forall>(property, v) \<in> set entries. \<not> isPropertyObject property (Some v) \<Longrightarrow>
   test_entries proved s entries = Inr True"
  by (induction entries) auto

lemma test_subjects_no_properties:
  "\<forall>s \<in> set actualState. \<forall>(property, v) \<in> set s. \<not> isPropertyObject property (Some v) \<Longrightarrow>
   test_subjects proved actualState = Inr True"
  by (induction actualState) (auto simp: test_entries_no_properties)

text \<open>
  Claim C10. The comparison ranges over the properties of the local snapshot only, keys such
  as \<^verbatim>\<open>'@id'\<close> not being properties. When no subject of the local snapshot has a property,
  \<open>test\<close> passes whatever the committed state is, also when it has no subject for the
  entity or is no array at all.
\<close>

theorem test_empty_subject_vacuous:
  assumes "find isProofKey (array proof) = Some (JStr proofKey)"
    and "ledger w proofKey = Some proofValue"
    and "JSON_parse proofValue = Inr proved"
    and "js_member proved ''pid'' = Inr (Some (JStr (at_id p)))"
    and "load state affected = Inr actualState"
    and "\<forall>s \<in> set actualState. \<forall>(property, v) \<in> set s. \<not> isPropertyObject property (Some v)"
  shows "fst (test w state affected proof (Some p)) = Inr Pass"
  using test_reaches_comparison [OF assms(1-5)] test_subjects_no_properties [OF assms(6)]
  by simp

lemma ex_commitment_empty_parse:
  "JSON_parse (JSON_stringify ex_commitment_empty) = Inr ex_commitment_empty"
  unfolding ex_commitment_empty_def ProofValue_def ex_alice_def by code_simp

lemma ex_load_delete_fred:
  "load ex_state_fred ex_delete_fred = Inr [[(''@id'', JStr ''fred'')]]"
  by code_simp

text \<open>
  Fred's only property is deleted, so his final state is \<^verbatim>\<open>{'@id': 'fred'}\<close>; the commitment
  has the empty state and \<open>test\<close> passes.
\<close>

theorem test_empty_subject_vacuous_witness:
  "find isProofKey (array ex_proof) = Some (JStr ''pk_deadbeef'')
   \<and> ledger ex_ledger_empty ''pk_deadbeef'' = Some (JSON_stringify ex_commitment_empty)
   \<and> JSON_parse (JSON_stringify ex_commitment_empty) = Inr ex_commitment_empty
   \<and> js_member ex_commitment_empty ''pid'' = Inr (Some (JStr (at_id ex_alice)))
   \<and> js_member ex_commitment_empty ''state'' = Inr (Some (JArr []))
   \<and> load ex_state_fred ex_delete_fred = Inr [[(''@id'', JStr ''fred'')]]
   \<and> \<not> isPropertyObject ''@id'' (Some (JStr ''fred''))
   \<and> fst (test ex_ledger_empty ex_state_fred ex_delete_fred ex_proof (Some ex_alice)) = Inr Pass"
proof -
  have 2: "ledger ex_ledger_empty ''pk_deadbeef'' = Some (JSON_stringify ex_commitment_empty)"
    by (simp add: ex_ledger_empty_def)
  have 4: "js_member ex_commitment_empty ''pid'' = Inr (Some (JStr (at_id ex_alice)))"
    by (simp add: js_member_def own_property_def ex_commitment_empty_def ProofValue_def)
  have 5: "js_member ex_commitment_empty ''state'' = Inr (Some (JArr []))"
    by (simp add: js_member_def own_property_def ex_commitment_empty_def ProofValue_def)
  have 6: "\<not> isPropertyObject ''@id'' (Some (JStr ''fred''))"
    by (simp add: isPropertyObject_def)
  have 7: "\<forall>s \<in> set [[(''@id'', JStr ''fred'')]]. \<forall>(property, v) \<in> set s.
           \<not> isPropertyObject property (Some v)"
    using 6 by simp
  from test_empty_subject_vacuous [OF ex_find_proof_key 2 ex_commitment_empty_parse 4
      ex_load_delete_fred 7]
    ex_find_proof_key 2 ex_commitment_empty_parse 4 5 6 ex_load_delete_fred
  show ?thesis by (intro conjI)
qed

section \<open>Proving and then testing\<close>

text \<open>
  Claim C7. Whatever the delta and the read state, \<open>prove\<close> called without a principal
  returns \<^verbatim>\<open>false\<close> instead of throwing, and leaves the world as it was: no state read is
  issued and no command is sent to the ledger.
\<close>

theorem prove_without_principal:
  "prove w state affected None randomHex = (Inr ProveFalse, w)"
  by (simp add: prove_def)

lemma prove_with_principal:
  assumes "load state affected = Inr provedState"
  shows "prove w state affected (Some p) randomHex =
     (Inr (ProofKey (PROOF_KEY_PREFIX @ randomHex)),
      snd (setAccountDetail (load_effects w affected) (PROOF_KEY_PREFIX @ randomHex)
             (JSON_stringify (ProofValue (at_id p) provedState))))"
  using assms by (simp add: prove_def setAccountDetail_stores)

lemma prove_returns_token:
  assumes "prove w state affected (Some p) randomHex = (Inr (ProofKey token), w1)"
  shows "token = PROOF_KEY_PREFIX @ randomHex"
    and "\<exists>provedState. load state affected = Inr provedState
           \<and> ledger w1 token = Some (JSON_stringify (ProofValue (at_id p) provedState))"
proof -
  from assms obtain provedState where l: "load state affected = Inr provedState"
    by (cases "load state affected") (auto simp: prove_def)
  from assms show t: "token = PROOF_KEY_PREFIX @ randomHex"
    by (simp add: prove_with_principal [OF l])
  from assms have "ledger w1 token = Some (JSON_stringify (ProofValue (at_id p) provedState))"
    by (auto simp: prove_with_principal [OF l] setAccountDetail_stores)
  with l show "\<exists>provedState. load state affected = Inr provedState
           \<and> ledger w1 token = Some (JSON_stringify (ProofValue (at_id p) provedState))"
    by blast
qed

lemma snapshot_contains_itself:
  assumes "list_all wf_subject actualState"
    and "\<forall>s \<in> set actualState. \<exists>i. map_of s ''@id'' = Some (JStr i)"
  shows "spec_subset (map JObj actualState) actualState"
  unfolding spec_subset_def spec_contained_def
proof (intro ballI, clarify)
  fix s property v
  assume s: "s \<in> set actualState" and e: "(property, v) \<in> set s"
  from assms(1) s have d: "distinct (map fst s)"
    by (auto simp: list_all_iff wf_subject_def)
  with e have m: "map_of s property = Some v" by simp
  from assms(2) s obtain i where i: "map_of s ''@id'' = Some (JStr i)" by blast
  have 1: "strict_equal (own_property (JObj s) ''@id'') (map_of s ''@id'')"
    by (simp add: own_property_def i strict_equal_def is_primitive_def)
  have 2: "includesValue (JObj s) property v"
    by (simp add: includesValue_def property_values_def own_property_def m list_all_iff)
  from s 1 2 show "\<exists>provedSubject\<in>set (map JObj actualState).
            strict_equal (own_property provedSubject ''@id'') (map_of s ''@id'') \<and>
            includesValue provedSubject property v"
    by (intro bexI [of _ "JObj s"]) simp_all
qed

text \<open>
  Claim C1. Let \<open>prove\<close> return a token for a principal, and let the ledger query for this
  token (in the world \<open>w2\<close> in which \<open>test\<close> runs) return the value that \<open>prove\<close> submitted,
  the serialised commitment to the snapshot. Then \<open>test\<close> with the same delta, read state
  and principal passes. The read state is taken to keep its contract and the subjects to be
  well-formed JavaScript objects.
\<close>

theorem prove_then_test:
  assumes "prove w state affected (Some p) randomHex = (Inr (ProofKey token), w1)"
    and "load state affected = Inr provedState"
    and "fst (getAccountDetail w2 token) = Some (JSON_stringify (ProofValue (at_id p) provedState))"
    and "store_contract state affected"
    and "wf_inputs state affected"
  shows "fst (test w2 state affected (JStr token) (Some p)) = Inr Pass"
proof -
  let ?proved = "ProofValue (at_id p) provedState"
  from assms(1) have token: "token = PROOF_KEY_PREFIX @ randomHex"
    by (rule prove_returns_token)
  then have k: "find isProofKey (array (JStr token)) = Some (JStr token)"
    by (simp add: array_def isProofKey_def startsWith_def)
  from assms(3) have l: "ledger w2 token = Some (JSON_stringify ?proved)"
    by (simp add: getAccountDetail_def)
  have wl: "list_all wf_subject provedState"
    using assms(5,2) by (rule wf_load)
  then have "wf_json ?proved"
    by (simp add: ProofValue_def list_all_iff wf_subject_def)
  then have j: "JSON_parse (JSON_stringify ?proved) = Inr ?proved"
    by (rule JSON_parse_stringify)
  have pid: "js_member ?proved ''pid'' = Inr (Some (JStr (at_id p)))"
    by (simp add: js_member_def own_property_def ProofValue_def)
  have st: "js_member ?proved ''state'' = Inr (Some (JArr (map JObj provedState)))"
    by (simp add: js_member_def own_property_def ProofValue_def)
  have nn: "JNull \<notin> set (map JObj provedState)"
    by auto
  have "spec_subset (map JObj provedState) provedState"
    using wl load_ids [OF assms(4,2)] by (rule snapshot_contains_itself)
  then have "test_subjects ?proved provedState = Inr True"
    by (simp add: test_subjects_objects [OF st nn])
  with test_reaches_comparison [OF k l j pid assms(2)] show ?thesis
    by simp
qed

lemma ex_contract_insert_fred: "store_contract ex_state_fred ex_insert_fred"
  by code_simp

lemma ex_wf_insert_fred: "wf_inputs ex_state_fred ex_insert_fred"
  by code_simp

lemma ex_token_eq: "ex_token = PROOF_KEY_PREFIX @ ex_random_hex"
  by (simp add: ex_token_def PROOF_KEY_PREFIX_def ex_random_hex_def)

text \<open>
  Alice proves the insertion of Fred's name; the world is the one \<open>prove\<close> leaves behind,
  in which the ledger returns the submitted commitment.
\<close>

theorem prove_then_test_witness:
  "prove ex_world ex_state_fred ex_insert_fred (Some ex_alice) ex_random_hex
     = (Inr (ProofKey ex_token), ex_proved_world)
   \<and> load ex_state_fred ex_insert_fred = Inr [[(''@id'', JStr ''fred''), (''name'', JStr ''Fred'')]]
   \<and> fst (getAccountDetail ex_proved_world ex_token)
       = Some (JSON_stringify (ProofValue (at_id ex_alice)
                 [[(''@id'', JStr ''fred''), (''name'', JStr ''Fred'')]]))
   \<and> store_contract ex_state_fred ex_insert_fred
   \<and> wf_inputs ex_state_fred ex_insert_fred
   \<and> fst (test ex_proved_world ex_state_fred ex_insert_fred (JStr ex_token) (Some ex_alice)) = Inr Pass"
proof -
  have 1: "prove ex_world ex_state_fred ex_insert_fred (Some ex_alice) ex_random_hex
     = (Inr (ProofKey ex_token), ex_proved_world)"
    unfolding ex_proved_world_def ex_token_eq
    by (simp add: prove_with_principal [OF ex_load_insert_fred])
  have 2: "fst (getAccountDetail ex_proved_world ex_token)
       = Some (JSON_stringify (ProofValue (at_id ex_alice)
                 [[(''@id'', JStr ''fred''), (''name'', JStr ''Fred'')]]))"
    unfolding ex_proved_world_def ex_token_eq
    by (simp add: prove_with_principal [OF ex_load_insert_fred] setAccountDetail_stores
          getAccountDetail_def)
  from prove_then_test [OF 1 ex_load_insert_fred 2 ex_contract_insert_fred ex_wf_insert_fred]
    1 ex_load_insert_fred 2 ex_contract_insert_fred ex_wf_insert_fred
  show ?thesis by (intro conjI)
qed

end
